theory Spec2Isabelle
  imports Main "HOL-Library.Word"
begin

section \<open>Data model\<close>

text \<open>
  The embedding follows \<^verbatim>\<open>auditableItemGraphService.ts\<close>. An optional property of a
  TypeScript object is an \<open>option\<close>; a \<^verbatim>\<open>Uint8Array\<close> is a list of 8-bit words; an epoch
  (\<^verbatim>\<open>Date.now()\<close>) is a natural number. Field names carry a prefix naming their record
  (\<open>el_\<close> for the audited sub-elements, \<open>v_\<close> for the vertex model, \<open>e_\<close> for the stored
  entity, \<open>cs_\<close> for a changeset), since the source uses the same property names in all
  of them.
\<close>

type_synonym bytes = "8 word list"

text \<open>Structured metadata (\<^verbatim>\<open>unknown\<close> in the source, JSON in practice).\<close>

datatype json =
  JNull
  | JBool bool
  | JNum int
  | JStr string
  | JArr "json list"
  | JObj "(string \<times> json) list"

text \<open>\<^verbatim>\<open>IPatchOperation\<close> of RFC 6902.\<close>

datatype patch_op = Add | Remove | Replace | Move | Copy | Test

record patch =
  p_op :: patch_op
  p_path :: string
  p_from :: "string option"
  p_value :: "json option"

text \<open>
  \<^verbatim>\<open>IAuditableItemGraphAlias\<close> and \<^verbatim>\<open>IAuditableItemGraphResource\<close> have the same
  properties; \<^verbatim>\<open>IAuditableItemGraphEdge\<close> adds the relationship.
\<close>

record element =
  el_id :: string
  el_created :: nat
  el_updated :: "nat option"
  el_deleted :: "nat option"
  el_metadataSchema :: "string option"
  el_metadata :: "json option"

record edge = element +
  el_relationship :: string

text \<open>The stored entities of the sub-elements: the mapping functions copy no \<^verbatim>\<open>updated\<close>.\<close>

record element_entity =
  ee_id :: string
  ee_created :: nat
  ee_deleted :: "nat option"
  ee_metadataSchema :: "string option"
  ee_metadata :: "json option"

record edge_entity = element_entity +
  ee_relationship :: string

text \<open>The items of the update lists passed to \<^verbatim>\<open>create\<close> and \<^verbatim>\<open>update\<close>.\<close>

record item =
  it_id :: string
  it_metadataSchema :: "string option"
  it_metadata :: "json option"

record edge_item = item +
  it_relationship :: string

record changeset =
  cs_created :: nat
  cs_userIdentity :: string
  cs_patches :: "patch list"
  cs_hash :: string
  cs_immutableStorageId :: "string option"

record vertex =
  v_id :: string
  v_nodeIdentity :: string
  v_created :: nat
  v_updated :: nat
  v_metadataSchema :: "string option"
  v_metadata :: "json option"
  v_aliases :: "element list option"
  v_resources :: "element list option"
  v_edges :: "edge list option"
  v_changesets :: "changeset list option"

record vertex_entity =
  e_id :: string
  e_created :: nat
  e_updated :: nat
  e_nodeIdentity :: string
  e_metadataSchema :: "string option"
  e_metadata :: "json option"
  e_aliasIndex :: "string option"
  e_aliases :: "element_entity list option"
  e_resources :: "element_entity list option"
  e_edges :: "edge_entity list option"
  e_changesets :: "changeset list option"

text \<open>\<^verbatim>\<open>IAuditableItemGraphServiceContext\<close>.\<close>

record "context" =
  now :: nat
  userIdentity :: string
  nodeIdentity :: string

text \<open>\<^verbatim>\<open>IAuditableItemGraphCredential\<close> and \<^verbatim>\<open>IAuditableItemGraphIntegrity\<close>.\<close>

record credential =
  signature :: string
  integrity :: "string option"

record integrity_data =
  in_created :: nat
  in_userIdentity :: string
  in_patches :: "patch list"

text \<open>
  The \<^verbatim>\<open>credentialSubject\<close> of a checked credential is an array, a single object, or
  missing.
\<close>

datatype credential_subject =
  SubjectArray "credential list"
  | SubjectSingle credential
  | SubjectMissing

record check_result =
  revoked :: bool
  credentialSubject :: credential_subject

section \<open>Errors\<close>

text \<open>
  Every \<^verbatim>\<open>throw\<close> is a value: the guards, the namespace mismatch, the missing vertex,
  a failure inside a collaborator, and the wrapper that each public operation puts around
  whatever is thrown inside its \<^verbatim>\<open>try\<close> block.
\<close>

datatype error =
  GuardError string
  | NamespaceMismatch string
  | NotFoundError string
  | TypeError
  | CollaboratorError string
  | GeneralError string error

definition wrap :: "string \<Rightarrow> error + 'a \<Rightarrow> error + 'a" where
  "wrap name r = (case r of Inl e \<Rightarrow> Inl (GeneralError name e) | Inr x \<Rightarrow> Inr x)"

section \<open>Library functions and collaborators\<close>

text \<open>
  The service calls libraries and connectors that are not part of the repository
  (\<^verbatim>\<open>@gtsc/core\<close>, \<^verbatim>\<open>@gtsc/crypto\<close>, the vault, identity and immutable storage
  connectors). They are parameters of the model, collected in one record together with
  the configuration of the service; a connector call may throw, so it returns a sum.
  The immutable storage is a state of an arbitrary type \<open>'imm\<close> that its three operations
  read and change. \<open>blake2b256 bs\<close> is the digest of a \<^verbatim>\<open>Blake2b(Blake2b.SIZE_256)\<close>
  object after \<^verbatim>\<open>update\<close> calls whose arguments concatenate to \<open>bs\<close>.
\<close>

record 'imm env =
  vaultKeyId :: string
  assertionMethodId :: string
  enableIntegrityCheck :: bool
  bytesToBase64 :: "bytes \<Rightarrow> string"
  base64ToBytes :: "string \<Rightarrow> bytes"
  utf8ToBytes :: "string \<Rightarrow> bytes"
  bytesToUtf8 :: "bytes \<Rightarrow> string"
  toBytes :: "patch list \<Rightarrow> bytes"
  canonicalize :: "json option \<Rightarrow> string"
  canonicalizeIntegrity :: "integrity_data \<Rightarrow> string"
  parseIntegrity :: "string \<Rightarrow> error + integrity_data"
  diff :: "vertex \<Rightarrow> vertex \<Rightarrow> patch list"
  urnFromValidString :: "string \<Rightarrow> error + string \<times> string"
  blake2b256 :: "bytes \<Rightarrow> bytes"
  vaultSign :: "string \<Rightarrow> bytes \<Rightarrow> error + bytes"
  vaultEncrypt :: "string \<Rightarrow> bytes \<Rightarrow> error + bytes"
  vaultDecrypt :: "string \<Rightarrow> bytes \<Rightarrow> error + bytes"
  createVerifiableCredential :: "string \<Rightarrow> string \<Rightarrow> credential \<Rightarrow> error + string"
  checkVerifiableCredential :: "string \<Rightarrow> error + check_result"
  jwtDecodeKid :: "string \<Rightarrow> error + string option"
  documentHelperParseId :: "string \<Rightarrow> error + string"
  immutableStore :: "'imm \<Rightarrow> string \<Rightarrow> bytes \<Rightarrow> error + string \<times> 'imm"
  immutableGet :: "'imm \<Rightarrow> string \<Rightarrow> error + bytes"
  immutableRemove :: "'imm \<Rightarrow> string \<Rightarrow> string \<Rightarrow> error + 'imm"

text \<open>The state the service works on: the vertex entity storage and the immutable storage.\<close>

record 'imm state =
  vertexStorage :: "vertex_entity list"
  immutableStorage :: 'imm

text \<open>
  Modelled from the spec: the entity storage connector is not part of the repository. It
  is a store of entities with the primary key \<^verbatim>\<open>id\<close>: \<^verbatim>\<open>get(id)\<close> returns the entity with
  that key if there is one, and \<^verbatim>\<open>set(entity)\<close> replaces the entity with the same key or
  adds the entity.
\<close>

definition storageGet :: "vertex_entity list \<Rightarrow> string \<Rightarrow> vertex_entity option" where
  "storageGet store k = find (\<lambda>e. e_id e = k) store"

fun storageSet :: "vertex_entity \<Rightarrow> vertex_entity list \<Rightarrow> vertex_entity list" where
  "storageSet e [] = [e]"
| "storageSet e (x # xs) = (if e_id x = e_id e then e # xs else x # storageSet e xs)"

section \<open>Helpers of the language and of \<^verbatim>\<open>Is\<close>\<close>

text \<open>\<^verbatim>\<open>Is.arrayValue\<close>: an array with at least one element.\<close>

definition arrayValue :: "'a list option \<Rightarrow> bool" where
  "arrayValue xs = (case xs of None \<Rightarrow> False | Some ys \<Rightarrow> ys \<noteq> [])"

text \<open>
  \<^verbatim>\<open>Guards.stringValue\<close> lets a string pass that has at least one character, whatever the
  characters are.
\<close>

definition guardStringValue :: "string option \<Rightarrow> bool" where
  "guardStringValue s = (case s of None \<Rightarrow> False | Some t \<Rightarrow> t \<noteq> [])"

text \<open>
  \<^verbatim>\<open>Is.stringValue\<close> is stricter: the string must have a character left after
  \<^verbatim>\<open>String.prototype.trim\<close>, which removes the white space and the line terminators at
  both ends. Among the 8-bit characters of the strings of this model these are the tab,
  the line feed, the vertical tab, the form feed, the carriage return, the space and the
  no-break space.
\<close>

definition whiteSpace :: "char \<Rightarrow> bool" where
  "whiteSpace c = ((of_char c :: nat) \<in> {9, 10, 11, 12, 13, 32, 160})"

definition trim :: "string \<Rightarrow> string" where
  "trim s = rev (dropWhile whiteSpace (rev (dropWhile whiteSpace s)))"

definition stringValue :: "string option \<Rightarrow> bool" where
  "stringValue s = (case s of None \<Rightarrow> False | Some t \<Rightarrow> length (trim t) > 0)"

text \<open>JavaScript truthiness of an optional number: \<^verbatim>\<open>undefined\<close> and \<^verbatim>\<open>0\<close> are falsy.\<close>

definition truthy :: "nat option \<Rightarrow> bool" where
  "truthy d = (case d of None \<Rightarrow> False | Some n \<Rightarrow> n \<noteq> 0)"

text \<open>\<^verbatim>\<open>Number.prototype.toString\<close> on a non-negative integer: its decimal digits.\<close>

definition digitChar :: "nat \<Rightarrow> char" where
  "digitChar d = char_of (48 + d)"

fun numberToString :: "nat \<Rightarrow> string" where
  "numberToString n =
     (if n < 10 then [digitChar n] else numberToString (n div 10) @ [digitChar (n mod 10)])"

text \<open>
  \<^verbatim>\<open>String.prototype.toLowerCase\<close> on the letters A to Z; every other character is kept
  (identifiers are modelled as ASCII strings).
\<close>

definition lowerChar :: "char \<Rightarrow> char" where
  "lowerChar c =
     (if 65 \<le> (of_char c :: nat) \<and> (of_char c :: nat) \<le> 90
      then char_of ((of_char c :: nat) + 32) else c)"

definition toLowerCase :: "string \<Rightarrow> string" where
  "toLowerCase s = map lowerChar s"

text \<open>\<^verbatim>\<open>Array.prototype.join\<close> on an array of strings.\<close>

fun join :: "string \<Rightarrow> string list \<Rightarrow> string" where
  "join sep [] = []"
| "join sep [x] = x"
| "join sep (x # y # ys) = x @ sep @ join sep (y # ys)"

text \<open>
  A \<^verbatim>\<open>find\<close> returns a reference to the first matching object and the caller then
  assigns to its properties: the first element that satisfies \<open>P\<close> is replaced by its
  image under \<open>f\<close>.
\<close>

fun updateFirst :: "('a \<Rightarrow> bool) \<Rightarrow> ('a \<Rightarrow> 'a) \<Rightarrow> 'a list \<Rightarrow> 'a list" where
  "updateFirst P f [] = []"
| "updateFirst P f (x # xs) = (if P x then f x # xs else x # updateFirst P f xs)"

text \<open>A \<^verbatim>\<open>for ... of\<close> loop whose body may throw: the first error ends the loop.\<close>

fun forEach :: "('s \<Rightarrow> 'a \<Rightarrow> error + 's) \<Rightarrow> 's \<Rightarrow> 'a list \<Rightarrow> error + 's" where
  "forEach body s [] = Inr s"
| "forEach body s (x # xs) =
     (case body s x of Inl e \<Rightarrow> Inl e | Inr s' \<Rightarrow> forEach body s' xs)"

text \<open>\<^verbatim>\<open>list?.find(a => a.id === id)\<close> used as a condition, on an optional update list.\<close>

definition inUpdateList :: "string \<Rightarrow> ('a item_scheme) list option \<Rightarrow> bool" where
  "inUpdateList i items =
     (case items of None \<Rightarrow> False | Some us \<Rightarrow> find (\<lambda>a. it_id a = i) us \<noteq> None)"

section \<open>The sub-element reconcilers\<close>

text \<open>
  \<^verbatim>\<open>updateAlias\<close>: the guard on the id, the search for an element with the same id, and
  the three cases: none or a deleted one found (a new element is pushed), a difference in
  schema or canonical metadata (the found element is changed in place), no difference.
  \<^verbatim>\<open>Guards.object\<close> cannot fail on a value of the item type.
\<close>

definition updateAlias :: "'imm env \<Rightarrow> context \<Rightarrow> vertex \<Rightarrow> item \<Rightarrow> error + vertex" where
  "updateAlias env ctx vertexModel alias =
     (if it_id alias = [] then Inl (GuardError ''alias.id'')
      else
        let existing =
              (case v_aliases vertexModel of None \<Rightarrow> None
               | Some xs \<Rightarrow> find (\<lambda>a. el_id a = it_id alias) xs)
        in
          if existing = None \<or> truthy (el_deleted (the existing)) then
            Inr (vertexModel\<lparr>v_aliases :=
              Some ((case v_aliases vertexModel of None \<Rightarrow> [] | Some xs \<Rightarrow> xs) @
                [\<lparr>el_id = it_id alias, el_created = now ctx, el_updated = None,
                  el_deleted = None, el_metadataSchema = it_metadataSchema alias,
                  el_metadata = it_metadata alias\<rparr>])\<rparr>)
          else if el_metadataSchema (the existing) \<noteq> it_metadataSchema alias \<or>
                  canonicalize env (el_metadata (the existing)) \<noteq>
                    canonicalize env (it_metadata alias) then
            Inr (vertexModel\<lparr>v_aliases :=
              map_option (updateFirst (\<lambda>a. el_id a = it_id alias)
                (\<lambda>a. a\<lparr>el_updated := Some (now ctx),
                        el_metadataSchema := it_metadataSchema alias,
                        el_metadata := it_metadata alias\<rparr>)) (v_aliases vertexModel)\<rparr>)
          else Inr vertexModel)"

text \<open>
  \<^verbatim>\<open>updateAliasList\<close>: every active alias (no \<^verbatim>\<open>deleted\<close>) whose id is not found in the
  update list is marked deleted now; then every item of the list is applied. The test
  \<^verbatim>\<open>!aliases?.find(...)\<close> is true for every active alias when the list is \<^verbatim>\<open>undefined\<close>.
\<close>

definition updateAliasList ::
  "'imm env \<Rightarrow> context \<Rightarrow> vertex \<Rightarrow> item list option \<Rightarrow> error + vertex" where
  "updateAliasList env ctx vertexModel aliases =
     (let marked = vertexModel\<lparr>v_aliases :=
            map_option (map (\<lambda>alias.
              if el_deleted alias = None \<and> \<not> inUpdateList (el_id alias) aliases
              then alias\<lparr>el_deleted := Some (now ctx)\<rparr> else alias)) (v_aliases vertexModel)\<rparr>
      in if arrayValue aliases then forEach (updateAlias env ctx) marked (the aliases)
         else Inr marked)"

definition updateResource :: "'imm env \<Rightarrow> context \<Rightarrow> vertex \<Rightarrow> item \<Rightarrow> error + vertex" where
  "updateResource env ctx vertexModel resource =
     (if it_id resource = [] then Inl (GuardError ''resource.id'')
      else
        let existing =
              (case v_resources vertexModel of None \<Rightarrow> None
               | Some xs \<Rightarrow> find (\<lambda>r. el_id r = it_id resource) xs)
        in
          if existing = None \<or> truthy (el_deleted (the existing)) then
            Inr (vertexModel\<lparr>v_resources :=
              Some ((case v_resources vertexModel of None \<Rightarrow> [] | Some xs \<Rightarrow> xs) @
                [\<lparr>el_id = it_id resource, el_created = now ctx, el_updated = None,
                  el_deleted = None, el_metadataSchema = it_metadataSchema resource,
                  el_metadata = it_metadata resource\<rparr>])\<rparr>)
          else if el_metadataSchema (the existing) \<noteq> it_metadataSchema resource \<or>
                  canonicalize env (el_metadata (the existing)) \<noteq>
                    canonicalize env (it_metadata resource) then
            Inr (vertexModel\<lparr>v_resources :=
              map_option (updateFirst (\<lambda>r. el_id r = it_id resource)
                (\<lambda>r. r\<lparr>el_updated := Some (now ctx),
                        el_metadataSchema := it_metadataSchema resource,
                        el_metadata := it_metadata resource\<rparr>)) (v_resources vertexModel)\<rparr>)
          else Inr vertexModel)"

definition updateResourceList ::
  "'imm env \<Rightarrow> context \<Rightarrow> vertex \<Rightarrow> item list option \<Rightarrow> error + vertex" where
  "updateResourceList env ctx vertexModel resources =
     (let marked = vertexModel\<lparr>v_resources :=
            map_option (map (\<lambda>resource.
              if el_deleted resource = None \<and> \<not> inUpdateList (el_id resource) resources
              then resource\<lparr>el_deleted := Some (now ctx)\<rparr> else resource))
              (v_resources vertexModel)\<rparr>
      in if arrayValue resources then forEach (updateResource env ctx) marked (the resources)
         else Inr marked)"

text \<open>\<^verbatim>\<open>updateEdge\<close> also guards the relationship and compares it.\<close>

definition updateEdge :: "'imm env \<Rightarrow> context \<Rightarrow> vertex \<Rightarrow> edge_item \<Rightarrow> error + vertex" where
  "updateEdge env ctx vertexModel edge =
     (if it_id edge = [] then Inl (GuardError ''edge.id'')
      else if it_relationship edge = [] then Inl (GuardError ''edge.relationship'')
      else
        let existing =
              (case v_edges vertexModel of None \<Rightarrow> None
               | Some xs \<Rightarrow> find (\<lambda>r. el_id r = it_id edge) xs)
        in
          if existing = None \<or> truthy (el_deleted (the existing)) then
            Inr (vertexModel\<lparr>v_edges :=
              Some ((case v_edges vertexModel of None \<Rightarrow> [] | Some xs \<Rightarrow> xs) @
                [\<lparr>el_id = it_id edge, el_created = now ctx, el_updated = None,
                  el_deleted = None, el_metadataSchema = it_metadataSchema edge,
                  el_metadata = it_metadata edge,
                  el_relationship = it_relationship edge\<rparr>])\<rparr>)
          else if el_relationship (the existing) \<noteq> it_relationship edge \<or>
                  el_metadataSchema (the existing) \<noteq> it_metadataSchema edge \<or>
                  canonicalize env (el_metadata (the existing)) \<noteq>
                    canonicalize env (it_metadata edge) then
            Inr (vertexModel\<lparr>v_edges :=
              map_option (updateFirst (\<lambda>r. el_id r = it_id edge)
                (\<lambda>r. r\<lparr>el_updated := Some (now ctx),
                        el_relationship := it_relationship edge,
                        el_metadataSchema := it_metadataSchema edge,
                        el_metadata := it_metadata edge\<rparr>)) (v_edges vertexModel)\<rparr>)
          else Inr vertexModel)"

definition updateEdgeList ::
  "'imm env \<Rightarrow> context \<Rightarrow> vertex \<Rightarrow> edge_item list option \<Rightarrow> error + vertex" where
  "updateEdgeList env ctx vertexModel edges =
     (let marked = vertexModel\<lparr>v_edges :=
            map_option (map (\<lambda>edge.
              if el_deleted edge = None \<and> \<not> inUpdateList (el_id edge) edges
              then edge\<lparr>el_deleted := Some (now ctx)\<rparr> else edge)) (v_edges vertexModel)\<rparr>
      in if arrayValue edges then forEach (updateEdge env ctx) marked (the edges)
         else Inr marked)"

section \<open>Changesets\<close>

text \<open>Sequencing of calls that may throw.\<close>

definition andThen :: "error + 'a \<Rightarrow> ('a \<Rightarrow> error + 'b) \<Rightarrow> error + 'b" where
  "andThen r f = (case r of Inl e \<Rightarrow> Inl e | Inr x \<Rightarrow> f x)"

text \<open>
  The bytes fed to the Blake2b object for one changeset, in the order of the \<^verbatim>\<open>update\<close>
  calls: the previous hash when there is one, the epoch as a decimal string, the user
  identity, the serialized patches.
\<close>

definition hashInput ::
  "'imm env \<Rightarrow> bytes option \<Rightarrow> nat \<Rightarrow> string \<Rightarrow> patch list \<Rightarrow> bytes" where
  "hashInput env lastHash created user patches =
     (case lastHash of None \<Rightarrow> [] | Some h \<Rightarrow> h) @
     utf8ToBytes env (numberToString created) @
     utf8ToBytes env user @
     toBytes env patches"

text \<open>
  \<^verbatim>\<open>addChangeset\<close> returns whether there were changes, the updated model and the
  immutable storage. The calls to the vault, the identity connector and the immutable
  storage come in the order of the source; the store is the last of them.
\<close>

definition addChangeset ::
  "'imm env \<Rightarrow> context \<Rightarrow> vertex \<Rightarrow> vertex \<Rightarrow> 'imm \<Rightarrow> error + bool \<times> vertex \<times> 'imm" where
  "addChangeset env ctx originalModel updatedModel imm =
     (let patches = diff env originalModel updatedModel;
          changeSets = (case v_changesets originalModel of None \<Rightarrow> [] | Some cs \<Rightarrow> cs)
      in
        if patches \<noteq> [] \<or> changeSets = [] then
          let changeSetHash = blake2b256 env (hashInput env
                (if changeSets \<noteq> [] then Some (base64ToBytes env (cs_hash (last changeSets)))
                 else None)
                (now ctx) (userIdentity ctx) patches)
          in
            andThen (vaultSign env (nodeIdentity ctx @ ''/'' @ vaultKeyId env) changeSetHash)
              (\<lambda>sig.
            andThen
              (if enableIntegrityCheck env then
                 andThen
                   (vaultEncrypt env (nodeIdentity ctx @ ''/'' @ vaultKeyId env)
                     (utf8ToBytes env (canonicalizeIntegrity env
                        \<lparr>in_created = now ctx, in_userIdentity = userIdentity ctx,
                          in_patches = patches\<rparr>)))
                   (\<lambda>encrypted. Inr (Some (bytesToBase64 env encrypted)))
               else Inr None)
              (\<lambda>integ.
            andThen
              (createVerifiableCredential env (nodeIdentity ctx)
                 (nodeIdentity ctx @ ''#'' @ assertionMethodId env)
                 \<lparr>signature = bytesToBase64 env sig, integrity = integ\<rparr>)
              (\<lambda>jwt.
            andThen (immutableStore env imm (nodeIdentity ctx) (utf8ToBytes env jwt))
              (\<lambda>(immutableStorageId, imm').
            Inr (True,
                 updatedModel\<lparr>v_changesets := Some (changeSets @
                   [\<lparr>cs_created = now ctx, cs_userIdentity = userIdentity ctx,
                     cs_patches = patches, cs_hash = bytesToBase64 env changeSetHash,
                     cs_immutableStorageId = Some immutableStorageId\<rparr>])\<rparr>,
                 imm')))))
        else Inr (False, updatedModel, imm))"

section \<open>Mapping between model and entity\<close>

definition aliasModelToEntity :: "element \<Rightarrow> element_entity" where
  "aliasModelToEntity m =
     \<lparr>ee_id = el_id m, ee_created = el_created m, ee_deleted = el_deleted m,
       ee_metadataSchema = el_metadataSchema m, ee_metadata = el_metadata m\<rparr>"

definition edgeModelToEntity :: "edge \<Rightarrow> edge_entity" where
  "edgeModelToEntity m =
     \<lparr>ee_id = el_id m, ee_created = el_created m, ee_deleted = el_deleted m,
       ee_metadataSchema = el_metadataSchema m, ee_metadata = el_metadata m,
       ee_relationship = el_relationship m\<rparr>"

definition aliasEntityToModel :: "element_entity \<Rightarrow> element" where
  "aliasEntityToModel e =
     \<lparr>el_id = ee_id e, el_created = ee_created e, el_updated = None,
       el_deleted = ee_deleted e, el_metadataSchema = ee_metadataSchema e,
       el_metadata = ee_metadata e\<rparr>"

definition edgeEntityToModel :: "edge_entity \<Rightarrow> edge" where
  "edgeEntityToModel e =
     \<lparr>el_id = ee_id e, el_created = ee_created e, el_updated = None,
       el_deleted = ee_deleted e, el_metadataSchema = ee_metadataSchema e,
       el_metadata = ee_metadata e, el_relationship = ee_relationship e\<rparr>"

text \<open>
  \<^verbatim>\<open>vertexModelToEntity\<close>: a collection is copied only when it is an array with elements
  (\<^verbatim>\<open>Is.arrayValue\<close>); the alias index is built inside the branch of the aliases.
\<close>

definition vertexModelToEntity :: "vertex \<Rightarrow> vertex_entity" where
  "vertexModelToEntity vertexModel =
     \<lparr>e_id = v_id vertexModel, e_created = v_created vertexModel,
       e_updated = v_updated vertexModel, e_nodeIdentity = v_nodeIdentity vertexModel,
       e_metadataSchema = v_metadataSchema vertexModel, e_metadata = v_metadata vertexModel,
       e_aliasIndex =
         (if arrayValue (v_aliases vertexModel)
          then Some (toLowerCase (join ''||'' (map el_id (the (v_aliases vertexModel)))))
          else None),
       e_aliases =
         (if arrayValue (v_aliases vertexModel)
          then Some (map aliasModelToEntity (the (v_aliases vertexModel))) else None),
       e_resources =
         (if arrayValue (v_resources vertexModel)
          then Some (map aliasModelToEntity (the (v_resources vertexModel))) else None),
       e_edges =
         (if arrayValue (v_edges vertexModel)
          then Some (map edgeModelToEntity (the (v_edges vertexModel))) else None),
       e_changesets =
         (if arrayValue (v_changesets vertexModel)
          then Some (the (v_changesets vertexModel)) else None)\<rparr>"

definition vertexEntityToModel :: "vertex_entity \<Rightarrow> vertex" where
  "vertexEntityToModel vertexEntity =
     \<lparr>v_id = e_id vertexEntity, v_nodeIdentity = e_nodeIdentity vertexEntity,
       v_created = e_created vertexEntity, v_updated = e_updated vertexEntity,
       v_metadataSchema = e_metadataSchema vertexEntity,
       v_metadata = e_metadata vertexEntity,
       v_aliases =
         (if arrayValue (e_aliases vertexEntity)
          then Some (map aliasEntityToModel (the (e_aliases vertexEntity))) else None),
       v_resources =
         (if arrayValue (e_resources vertexEntity)
          then Some (map aliasEntityToModel (the (e_resources vertexEntity))) else None),
       v_edges =
         (if arrayValue (e_edges vertexEntity)
          then Some (map edgeEntityToModel (the (e_edges vertexEntity))) else None),
       v_changesets =
         (if arrayValue (e_changesets vertexEntity)
          then Some (the (e_changesets vertexEntity)) else None)\<rparr>"

section \<open>Verification\<close>

datatype verify_depth = DepthNone | DepthCurrent | DepthAll

record failure_properties =
  fp_hash :: string
  fp_epoch :: nat
  fp_calculatedChangeset :: changeset
  fp_integrityChangeset :: "patch list option"
  fp_integrityNodeIdentity :: "string option"
  fp_integrityUserIdentity :: "string option"

record verify_entry =
  ve_created :: nat
  ve_patches :: "patch list"
  ve_failure :: "string option"
  ve_failureProperties :: "failure_properties option"

text \<open>
  What the check of one credential leaves behind: the failure, and the three values that
  only go into the failure properties.
\<close>

record credential_check =
  cc_failure :: "string option"
  cc_integrityPatches :: "patch list option"
  cc_integrityNodeIdentity :: "string option"
  cc_integrityUserIdentity :: "string option"

text \<open>
  The credential data taken from the checked credential; reading \<^verbatim>\<open>signature\<close> of the
  first element of an empty array throws.
\<close>

definition credentialData :: "credential_subject \<Rightarrow> error + credential" where
  "credentialData subject =
     (case subject of
        SubjectArray cs \<Rightarrow> (case cs of [] \<Rightarrow> Inl TypeError | c # _ \<Rightarrow> Inr c)
      | SubjectSingle c \<Rightarrow> Inr c
      | SubjectMissing \<Rightarrow> Inr \<lparr>signature = [], integrity = None\<rparr>)"

text \<open>
  The part of \<^verbatim>\<open>verifyChangesets\<close> that is run for a changeset in scope whose hash
  matched and that has an immutable storage id: the credential is read from the immutable
  storage and checked for revocation, signature and canonical integrity data.
\<close>

definition checkCredential ::
  "'imm env \<Rightarrow> 'imm \<Rightarrow> vertex \<Rightarrow> changeset \<Rightarrow> bytes \<Rightarrow> error + credential_check" where
  "checkCredential env imm vertex calculatedChangeset changesetSignature =
     andThen (immutableGet env imm (the (cs_immutableStorageId calculatedChangeset)))
       (\<lambda>verifiableCredentialBytes.
     let verifiableCredentialJwt = bytesToUtf8 env verifiableCredentialBytes in
     andThen (jwtDecodeKid env verifiableCredentialJwt)
       (\<lambda>kid.
     andThen (checkVerifiableCredential env verifiableCredentialJwt)
       (\<lambda>verificationResult.
     if revoked verificationResult then
       Inr \<lparr>cc_failure = Some ''changesetCredentialRevoked'', cc_integrityPatches = None,
            cc_integrityNodeIdentity = None, cc_integrityUserIdentity = None\<rparr>
     else
       andThen (documentHelperParseId env (case kid of None \<Rightarrow> [] | Some k \<Rightarrow> k))
         (\<lambda>integrityNodeIdentity.
       andThen (credentialData (credentialSubject verificationResult))
         (\<lambda>data.
       if signature data \<noteq> bytesToBase64 env changesetSignature then
         Inr \<lparr>cc_failure = Some ''invalidChangesetSignature'', cc_integrityPatches = None,
              cc_integrityNodeIdentity = Some integrityNodeIdentity,
              cc_integrityUserIdentity = None\<rparr>
       else if stringValue (integrity data) then
         andThen
           (vaultDecrypt env (v_nodeIdentity vertex @ ''/'' @ vaultKeyId env)
              (base64ToBytes env (the (integrity data))))
           (\<lambda>decrypted.
         let canonical = bytesToUtf8 env decrypted in
         andThen (parseIntegrity env canonical)
           (\<lambda>changesAndIdentity.
         Inr \<lparr>cc_failure =
                (if canonical \<noteq> canonicalizeIntegrity env
                      \<lparr>in_created = cs_created calculatedChangeset,
                        in_userIdentity = cs_userIdentity calculatedChangeset,
                        in_patches = cs_patches calculatedChangeset\<rparr>
                 then Some ''invalidChangesetCanonical'' else None),
              cc_integrityPatches = Some (in_patches changesAndIdentity),
              cc_integrityNodeIdentity = Some integrityNodeIdentity,
              cc_integrityUserIdentity = Some (in_userIdentity changesAndIdentity)\<rparr>))
       else
         Inr \<lparr>cc_failure = None, cc_integrityPatches = None,
              cc_integrityNodeIdentity = Some integrityNodeIdentity,
              cc_integrityUserIdentity = None\<rparr>)))))"

text \<open>
  One iteration of the loop of \<^verbatim>\<open>verifyChangesets\<close>, for the changeset at index \<open>i\<close> of
  \<open>n\<close>: the entry pushed to \<^verbatim>\<open>verification\<close>, the value of \<^verbatim>\<open>verified\<close> after the
  iteration and the recomputed hash that becomes \<^verbatim>\<open>lastHash\<close>. The block that adds the
  failure properties and clears \<^verbatim>\<open>verified\<close> is inside the \<^verbatim>\<open>else if\<close> branch, so it
  is not reached when the hash differs.
\<close>

definition verifyChangeset ::
  "'imm env \<Rightarrow> 'imm \<Rightarrow> vertex \<Rightarrow> verify_depth \<Rightarrow> nat \<Rightarrow> nat \<Rightarrow> bytes option \<Rightarrow> bool \<Rightarrow>
     changeset \<Rightarrow> error + verify_entry \<times> bool \<times> bytes" where
  "verifyChangeset env imm vertex verifySignatureDepth n i lastHash verified calculatedChangeset =
     (let verify = \<lparr>ve_created = cs_created calculatedChangeset,
                     ve_patches = cs_patches calculatedChangeset,
                     ve_failure = None, ve_failureProperties = None\<rparr>;
          verifyHash = blake2b256 env (hashInput env lastHash
            (cs_created calculatedChangeset) (cs_userIdentity calculatedChangeset)
            (cs_patches calculatedChangeset))
      in
        if bytesToBase64 env verifyHash \<noteq> cs_hash calculatedChangeset then
          Inr (verify\<lparr>ve_failure := Some ''invalidChangesetHash''\<rparr>, verified, verifyHash)
        else if verifySignatureDepth = DepthAll \<or>
                (verifySignatureDepth = DepthCurrent \<and> i = n - 1) then
          andThen (vaultSign env (v_nodeIdentity vertex @ ''/'' @ vaultKeyId env) verifyHash)
            (\<lambda>changesetSignature.
          andThen
            (if stringValue (cs_immutableStorageId calculatedChangeset)
             then checkCredential env imm vertex calculatedChangeset changesetSignature
             else Inr \<lparr>cc_failure = None, cc_integrityPatches = None,
                       cc_integrityNodeIdentity = None, cc_integrityUserIdentity = None\<rparr>)
            (\<lambda>checked.
          if stringValue (cc_failure checked) then
            Inr (verify\<lparr>ve_failure := cc_failure checked,
                   ve_failureProperties := Some
                     \<lparr>fp_hash = cs_hash calculatedChangeset,
                      fp_epoch = cs_created calculatedChangeset,
                      fp_calculatedChangeset = calculatedChangeset,
                      fp_integrityChangeset = cc_integrityPatches checked,
                      fp_integrityNodeIdentity = cc_integrityNodeIdentity checked,
                      fp_integrityUserIdentity = cc_integrityUserIdentity checked\<rparr>\<rparr>,
                 False, verifyHash)
          else Inr (verify\<lparr>ve_failure := cc_failure checked\<rparr>, verified, verifyHash)))
        else Inr (verify, verified, verifyHash))"

text \<open>The loop over the changesets, from index \<open>i\<close> on.\<close>

fun verifyLoop ::
  "'imm env \<Rightarrow> 'imm \<Rightarrow> vertex \<Rightarrow> verify_depth \<Rightarrow> nat \<Rightarrow> nat \<Rightarrow> bytes option \<Rightarrow> bool \<Rightarrow>
     verify_entry list \<Rightarrow> changeset list \<Rightarrow> error + bool \<times> verify_entry list" where
  "verifyLoop env imm vertex depth n i lastHash verified verification [] =
     Inr (verified, verification)"
| "verifyLoop env imm vertex depth n i lastHash verified verification (c # cs) =
     (case verifyChangeset env imm vertex depth n i lastHash verified c of
        Inl e \<Rightarrow> Inl e
      | Inr (verify, verified', verifyHash) \<Rightarrow>
          verifyLoop env imm vertex depth n (i + 1) (Some verifyHash) verified'
            (verification @ [verify]) cs)"

definition verifyChangesets ::
  "'imm env \<Rightarrow> 'imm \<Rightarrow> vertex \<Rightarrow> verify_depth \<Rightarrow> error + bool \<times> verify_entry list" where
  "verifyChangesets env imm vertex verifySignatureDepth =
     (if arrayValue (v_changesets vertex)
      then verifyLoop env imm vertex verifySignatureDepth
             (length (the (v_changesets vertex))) 0 None True [] (the (v_changesets vertex))
      else Inr (True, []))"

section \<open>The operations of the service\<close>

definition NAMESPACE :: string where
  "NAMESPACE = ''aig''"

text \<open>\<^verbatim>\<open>new Urn(namespace, id).toString()\<close>: the identifier handed to the caller.\<close>

definition urnToString :: "string \<Rightarrow> string \<Rightarrow> string" where
  "urnToString namespace i = namespace @ '':'' @ i"

text \<open>
  \<^verbatim>\<open>create\<close>. The epoch \<open>t\<close> read from the clock and the hexadecimal rendering \<open>i\<close> of
  the 32 random bytes are arguments. An operation that throws returns the error alone.
\<close>

definition create ::
  "'imm env \<Rightarrow> nat \<Rightarrow> string \<Rightarrow> string option \<Rightarrow> json option \<Rightarrow> item list option \<Rightarrow>
     item list option \<Rightarrow> edge_item list option \<Rightarrow> string option \<Rightarrow> string option \<Rightarrow>
     'imm state \<Rightarrow> error + string \<times> 'imm state" where
  "create env t i metadataSchema metadata aliases resources edges identity nodeIdentity' st =
     (if \<not> guardStringValue identity then Inl (GuardError ''identity'')
      else if \<not> guardStringValue nodeIdentity' then Inl (GuardError ''nodeIdentity'')
      else wrap ''createFailed''
        (let ctx = \<lparr>now = t, userIdentity = the identity, nodeIdentity = the nodeIdentity'\<rparr>;
             originalModel =
               \<lparr>v_id = i, v_nodeIdentity = the nodeIdentity', v_created = now ctx,
                 v_updated = now ctx, v_metadataSchema = None, v_metadata = None,
                 v_aliases = None, v_resources = None, v_edges = None,
                 v_changesets = None\<rparr>;
             vertexModel =
               originalModel\<lparr>v_metadataSchema := metadataSchema, v_metadata := metadata\<rparr>
         in
           andThen (updateAliasList env ctx vertexModel aliases) (\<lambda>vertexModel.
           andThen (updateResourceList env ctx vertexModel resources) (\<lambda>vertexModel.
           andThen (updateEdgeList env ctx vertexModel edges) (\<lambda>vertexModel.
           andThen (addChangeset env ctx originalModel vertexModel (immutableStorage st))
             (\<lambda>(changes, vertexModel, imm).
           Inr (urnToString NAMESPACE i,
                \<lparr>vertexStorage =
                   storageSet (vertexModelToEntity vertexModel) (vertexStorage st),
                  immutableStorage = imm\<rparr>)))))))"

text \<open>The options of \<^verbatim>\<open>get\<close> and its result.\<close>

record get_options =
  includeDeleted :: "bool option"
  includeChangesets :: "bool option"
  verifySignatureDepth :: "verify_depth option"

record get_result =
  verified :: "bool option"
  verification :: "verify_entry list option"
  vertex :: vertex

text \<open>
  The filter that \<^verbatim>\<open>get\<close> applies to each of the three collections: the elements with
  \<^verbatim>\<open>deleted\<close> undefined are kept, and the property is deleted when none is left.
\<close>

definition withoutDeleted :: "('a element_scheme) list option \<Rightarrow> ('a element_scheme) list option" where
  "withoutDeleted xs =
     (if arrayValue xs then
        (let kept = filter (\<lambda>a. el_deleted a = None) (the xs)
         in if length kept = 0 then None else Some kept)
      else xs)"

definition get ::
  "'imm env \<Rightarrow> string \<Rightarrow> get_options option \<Rightarrow> 'imm state \<Rightarrow> error + get_result" where
  "get env i options st =
     (if i = [] then Inl (GuardError ''id'')
      else andThen (urnFromValidString env i) (\<lambda>(namespaceIdentifier, vertexId).
        if namespaceIdentifier \<noteq> NAMESPACE then Inl (NamespaceMismatch i)
        else wrap ''getFailed''
          (case storageGet (vertexStorage st) vertexId of
             None \<Rightarrow> Inl (NotFoundError i)
           | Some vertexEntity \<Rightarrow>
               let vertexModel = vertexEntityToModel vertexEntity;
                   depth = (case options of None \<Rightarrow> None
                            | Some opts \<Rightarrow> verifySignatureDepth opts)
               in
                 andThen
                   (if depth = Some DepthCurrent \<or> depth = Some DepthAll then
                      andThen
                        (verifyChangesets env (immutableStorage st) vertexModel (the depth))
                        (\<lambda>(verified', verification'). Inr (Some verified', Some verification'))
                    else Inr (None, None))
                   (\<lambda>(verified', verification').
                 let includeDeleted' =
                       (case options of None \<Rightarrow> False
                        | Some opts \<Rightarrow>
                            (case includeDeleted opts of None \<Rightarrow> False | Some b \<Rightarrow> b));
                     includeChangesets' =
                       (case options of None \<Rightarrow> False
                        | Some opts \<Rightarrow>
                            (case includeChangesets opts of None \<Rightarrow> False | Some b \<Rightarrow> b));
                     vertexModel =
                       (if \<not> includeDeleted' then
                          vertexModel\<lparr>v_aliases := withoutDeleted (v_aliases vertexModel),
                            v_resources := withoutDeleted (v_resources vertexModel),
                            v_edges := withoutDeleted (v_edges vertexModel)\<rparr>
                        else vertexModel);
                     vertexModel =
                       (if \<not> includeChangesets' then vertexModel\<lparr>v_changesets := None\<rparr>
                        else vertexModel)
                 in Inr \<lparr>verified = verified', verification = verification',
                         vertex = vertexModel\<rparr>))))"

text \<open>\<^verbatim>\<open>update\<close>, with the epoch \<open>t\<close> read from the clock as an argument.\<close>

definition update ::
  "'imm env \<Rightarrow> nat \<Rightarrow> string \<Rightarrow> string option \<Rightarrow> json option \<Rightarrow> item list option \<Rightarrow>
     item list option \<Rightarrow> edge_item list option \<Rightarrow> string option \<Rightarrow> string option \<Rightarrow>
     'imm state \<Rightarrow> error + 'imm state" where
  "update env t i metadataSchema metadata aliases resources edges identity nodeIdentity' st =
     (if i = [] then Inl (GuardError ''id'')
      else if \<not> guardStringValue identity then Inl (GuardError ''identity'')
      else if \<not> guardStringValue nodeIdentity' then Inl (GuardError ''nodeIdentity'')
      else andThen (urnFromValidString env i) (\<lambda>(namespaceIdentifier, vertexId).
        if namespaceIdentifier \<noteq> NAMESPACE then Inl (NamespaceMismatch i)
        else wrap ''updateFailed''
          (case storageGet (vertexStorage st) vertexId of
             None \<Rightarrow> Inl (NotFoundError i)
           | Some vertexEntity \<Rightarrow>
               let ctx = \<lparr>now = t, userIdentity = the identity,
                          nodeIdentity = the nodeIdentity'\<rparr>;
                   originalModel = vertexEntityToModel vertexEntity;
                   vertexModel = originalModel\<lparr>v_metadataSchema := metadataSchema,
                                   v_metadata := metadata\<rparr>
               in
                 andThen (updateAliasList env ctx vertexModel aliases) (\<lambda>vertexModel.
                 andThen (updateResourceList env ctx vertexModel resources) (\<lambda>vertexModel.
                 andThen (updateEdgeList env ctx vertexModel edges) (\<lambda>vertexModel.
                 andThen
                   (addChangeset env ctx originalModel vertexModel (immutableStorage st))
                   (\<lambda>(changes, vertexModel, imm).
                 if changes then
                   Inr \<lparr>vertexStorage =
                          storageSet
                            (vertexModelToEntity (vertexModel\<lparr>v_updated := now ctx\<rparr>))
                            (vertexStorage st),
                        immutableStorage = imm\<rparr>
                 else Inr (st\<lparr>immutableStorage := imm\<rparr>))))))))"

text \<open>
  The body of the loop of \<^verbatim>\<open>removeImmutable\<close>: the immutable storage, the flag
  \<^verbatim>\<open>hasChanged\<close> and the changesets already visited.
\<close>

definition removeImmutableStep ::
  "'imm env \<Rightarrow> string \<Rightarrow> 'imm \<times> bool \<times> changeset list \<Rightarrow> changeset \<Rightarrow>
     error + 'imm \<times> bool \<times> changeset list" where
  "removeImmutableStep env nodeIdentity' acc changeset =
     (case acc of (imm, hasChanged, visited) \<Rightarrow>
        if stringValue (cs_immutableStorageId changeset) then
          andThen
            (immutableRemove env imm nodeIdentity' (the (cs_immutableStorageId changeset)))
            (\<lambda>imm'. Inr (imm', True,
                          visited @ [changeset\<lparr>cs_immutableStorageId := None\<rparr>]))
        else Inr (imm, hasChanged, visited @ [changeset]))"

definition removeImmutable ::
  "'imm env \<Rightarrow> string \<Rightarrow> string option \<Rightarrow> 'imm state \<Rightarrow> error + 'imm state" where
  "removeImmutable env i nodeIdentity' st =
     (if i = [] then Inl (GuardError ''id'')
      else if \<not> guardStringValue nodeIdentity' then Inl (GuardError ''nodeIdentity'')
      else andThen (urnFromValidString env i) (\<lambda>(namespaceIdentifier, vertexId).
        if namespaceIdentifier \<noteq> NAMESPACE then Inl (NamespaceMismatch i)
        else wrap ''removeImmutableFailed''
          (case storageGet (vertexStorage st) vertexId of
             None \<Rightarrow> Inl (NotFoundError i)
           | Some vertexEntity \<Rightarrow>
               if arrayValue (e_changesets vertexEntity) then
                 andThen
                   (forEach (removeImmutableStep env (the nodeIdentity'))
                      (immutableStorage st, False, []) (the (e_changesets vertexEntity)))
                   (\<lambda>(imm, hasChanged, changesets).
                 if hasChanged then
                   Inr \<lparr>vertexStorage =
                          storageSet (vertexEntity\<lparr>e_changesets := Some changesets\<rparr>)
                            (vertexStorage st),
                        immutableStorage = imm\<rparr>
                 else Inr (st\<lparr>immutableStorage := imm\<rparr>))
               else Inr st)))"

text \<open>
  The states the service can reach from an empty vertex storage by its three mutating
  operations.
\<close>

inductive reachable :: "'imm env \<Rightarrow> 'imm state \<Rightarrow> bool" for env :: "'imm env" where
  reachable_init: "reachable env \<lparr>vertexStorage = [], immutableStorage = imm\<rparr>"
| reachable_create:
    "reachable env st \<Longrightarrow>
     create env t i metadataSchema metadata aliases resources edges identity node st =
       Inr (urn, st') \<Longrightarrow>
     reachable env st'"
| reachable_update:
    "reachable env st \<Longrightarrow>
     update env t i metadataSchema metadata aliases resources edges identity node st =
       Inr st' \<Longrightarrow>
     reachable env st'"
| reachable_removeImmutable:
    "reachable env st \<Longrightarrow> removeImmutable env i node st = Inr st' \<Longrightarrow> reachable env st'"

section \<open>A concrete environment\<close>

text \<open>
  The theorems below hold for every environment. To run the operations on concrete
  inputs, the parameters are instantiated with small stand-ins: bytes and characters are
  mapped one to one, the digest is a two-byte checksum, the immutable storage is a
  counter with a list of stored items, and the difference of two vertices is taken
  field by field.
\<close>

definition demoBytes :: "string \<Rightarrow> bytes" where
  "demoBytes s = map (\<lambda>c. of_nat (of_char c)) s"

definition demoText :: "bytes \<Rightarrow> string" where
  "demoText bs = map (\<lambda>b. char_of (unat b)) bs"

definition demoDigest :: "bytes \<Rightarrow> bytes" where
  "demoDigest bs = [foldl (\<lambda>h b. h * 31 + b) 7 bs, of_nat (length bs)]"

definition demoPatchBytes :: "patch list \<Rightarrow> bytes" where
  "demoPatchBytes ps = concat (map (\<lambda>p. demoBytes (p_path p @ '';'')) ps)"

definition demoCanonicalize :: "json option \<Rightarrow> string" where
  "demoCanonicalize j =
     (case j of
        None \<Rightarrow> []
      | Some JNull \<Rightarrow> ''null''
      | Some (JBool b) \<Rightarrow> (if b then ''true'' else ''false'')
      | Some (JNum k) \<Rightarrow> (if k < 0 then ''-'' else []) @ numberToString (nat (abs k))
      | Some (JStr t) \<Rightarrow> ''\"'' @ t @ ''\"''
      | Some (JArr xs) \<Rightarrow> ''[...]''
      | Some (JObj kvs) \<Rightarrow> ''{'' @ join '','' (map fst kvs) @ ''}'')"

definition demoFieldDiff :: "string \<Rightarrow> json option \<Rightarrow> json option \<Rightarrow> patch list" where
  "demoFieldDiff path' old new =
     (case (old, new) of
        (None, None) \<Rightarrow> []
      | (None, Some v) \<Rightarrow>
          [\<lparr>p_op = Add, p_path = path', p_from = None, p_value = Some v\<rparr>]
      | (Some u, None) \<Rightarrow>
          [\<lparr>p_op = Remove, p_path = path', p_from = None, p_value = None\<rparr>]
      | (Some u, Some v) \<Rightarrow>
          (if u = v then []
           else [\<lparr>p_op = Replace, p_path = path', p_from = None, p_value = Some v\<rparr>]))"

definition demoDiff :: "vertex \<Rightarrow> vertex \<Rightarrow> patch list" where
  "demoDiff a b =
     demoFieldDiff ''/metadataSchema''
       (map_option JStr (v_metadataSchema a)) (map_option JStr (v_metadataSchema b)) @
     demoFieldDiff ''/metadata'' (v_metadata a) (v_metadata b) @
     (if v_aliases a = v_aliases b then []
      else [\<lparr>p_op = Replace, p_path = ''/aliases'', p_from = None, p_value = None\<rparr>]) @
     (if v_resources a = v_resources b then []
      else [\<lparr>p_op = Replace, p_path = ''/resources'', p_from = None, p_value = None\<rparr>]) @
     (if v_edges a = v_edges b then []
      else [\<lparr>p_op = Replace, p_path = ''/edges'', p_from = None, p_value = None\<rparr>])"

definition demoUrn :: "string \<Rightarrow> error + string \<times> string" where
  "demoUrn s =
     (if CHR '':'' \<in> set s
      then Inr (takeWhile (\<lambda>c. c \<noteq> CHR '':'') s, tl (dropWhile (\<lambda>c. c \<noteq> CHR '':'') s))
      else Inl (GuardError ''urn''))"

definition demoCheck :: "string \<Rightarrow> error + check_result" where
  "demoCheck jwt =
     Inr \<lparr>revoked = False,
          credentialSubject = SubjectSingle
            \<lparr>signature = takeWhile (\<lambda>c. c \<noteq> CHR ''~'') jwt,
             integrity =
               (let r = drop 1 (dropWhile (\<lambda>c. c \<noteq> CHR ''~'') jwt)
                in if r = [] then None else Some r)\<rparr>\<rparr>"

type_synonym demo_log = "nat \<times> (string \<times> bytes) list"

definition demoStore :: "demo_log \<Rightarrow> string \<Rightarrow> bytes \<Rightarrow> error + string \<times> demo_log" where
  "demoStore imm controller bs =
     (let k = ''immutable:'' @ numberToString (fst imm)
      in Inr (k, (fst imm + 1, snd imm @ [(k, bs)])))"

definition demoGet :: "demo_log \<Rightarrow> string \<Rightarrow> error + bytes" where
  "demoGet imm k =
     (case map_of (snd imm) k of None \<Rightarrow> Inl (NotFoundError k) | Some bs \<Rightarrow> Inr bs)"

definition demoRemove :: "demo_log \<Rightarrow> string \<Rightarrow> string \<Rightarrow> error + demo_log" where
  "demoRemove imm controller k =
     (case map_of (snd imm) k of
        None \<Rightarrow> Inl (NotFoundError k)
      | Some bs \<Rightarrow> Inr (fst imm, filter (\<lambda>kv. fst kv \<noteq> k) (snd imm)))"

definition demoEnv :: "demo_log env" where
  "demoEnv =
     \<lparr>vaultKeyId = ''auditable-item-graph'',
      assertionMethodId = ''auditable-item-graph'',
      enableIntegrityCheck = False,
      bytesToBase64 = demoText,
      base64ToBytes = demoBytes,
      utf8ToBytes = demoBytes,
      bytesToUtf8 = demoText,
      toBytes = demoPatchBytes,
      canonicalize = demoCanonicalize,
      canonicalizeIntegrity =
        (\<lambda>d. numberToString (in_created d) @ '','' @ in_userIdentity d @ '','' @
              demoText (demoPatchBytes (in_patches d))),
      parseIntegrity =
        (\<lambda>s. Inr \<lparr>in_created = 0, in_userIdentity = s, in_patches = []\<rparr>),
      diff = demoDiff,
      urnFromValidString = demoUrn,
      blake2b256 = demoDigest,
      vaultSign = (\<lambda>k bs. Inr (demoDigest (demoBytes k @ bs))),
      vaultEncrypt = (\<lambda>k bs. Inr (rev bs)),
      vaultDecrypt = (\<lambda>k bs. Inr (rev bs)),
      createVerifiableCredential =
        (\<lambda>issuer method c.
           Inr (signature c @ ''~'' @ (case integrity c of None \<Rightarrow> [] | Some x \<Rightarrow> x))),
      checkVerifiableCredential = demoCheck,
      jwtDecodeKid = (\<lambda>jwt. Inr None),
      documentHelperParseId = (\<lambda>s. Inr (takeWhile (\<lambda>c. c \<noteq> CHR ''#'') s)),
      immutableStore = demoStore,
      immutableGet = demoGet,
      immutableRemove = demoRemove\<rparr>"

definition demoInit :: "demo_log state" where
  "demoInit = \<lparr>vertexStorage = [], immutableStorage = (0, [])\<rparr>"

definition demoItem :: "string \<Rightarrow> item" where
  "demoItem i = \<lparr>it_id = i, it_metadataSchema = None, it_metadata = None\<rparr>"

text \<open>
  A second environment, in which the two serializations of the library are written out.
  \<^verbatim>\<open>ObjectHelper.toBytes\<close> is the UTF-8 encoding of \<^verbatim>\<open>JSON.stringify\<close>, which writes the
  properties of an object in the order in which they were inserted;
  \<^verbatim>\<open>JsonHelper.canonicalize\<close> writes them sorted by name. A patch operation is the object
  with the properties \<^verbatim>\<open>op\<close>, \<^verbatim>\<open>path\<close>, \<^verbatim>\<open>from\<close> and \<^verbatim>\<open>value\<close>, the last two when
  present. In a string the quotation mark and the backslash are escaped (control
  characters, which are escaped too, do not occur in the values used below).
\<close>

definition opName :: "patch_op \<Rightarrow> string" where
  "opName op =
     (case op of Add \<Rightarrow> ''add'' | Remove \<Rightarrow> ''remove'' | Replace \<Rightarrow> ''replace''
      | Move \<Rightarrow> ''move'' | Copy \<Rightarrow> ''copy'' | Test \<Rightarrow> ''test'')"

definition patchJson :: "patch \<Rightarrow> json" where
  "patchJson p =
     JObj ([(''op'', JStr (opName (p_op p))), (''path'', JStr (p_path p))] @
           (case p_from p of None \<Rightarrow> [] | Some f \<Rightarrow> [(''from'', JStr f)]) @
           (case p_value p of None \<Rightarrow> [] | Some v \<Rightarrow> [(''value'', v)]))"

definition quoted :: "string \<Rightarrow> string" where
  "quoted s =
     ''\"'' @ concat (map (\<lambda>c. if c = CHR ''\"'' \<or> c = CHR 0x5C then [CHR 0x5C, c] else [c]) s) @
     ''\"''"

primrec stringify :: "json \<Rightarrow> string" where
  "stringify JNull = ''null''"
| "stringify (JBool b) = (if b then ''true'' else ''false'')"
| "stringify (JNum k) = (if k < 0 then ''-'' else []) @ numberToString (nat (abs k))"
| "stringify (JStr t) = quoted t"
| "stringify (JArr xs) = ''['' @ join '','' (map stringify xs) @ '']''"
| "stringify (JObj kvs) =
     ''{'' @ join '','' (map (\<lambda>kv. quoted (fst kv) @ '':'' @ snd kv)
                          (map (map_prod id stringify) kvs)) @ ''}''"

text \<open>The order of the property names, character by character, and the sorted properties.\<close>

fun keyLess :: "string \<Rightarrow> string \<Rightarrow> bool" where
  "keyLess [] [] = False"
| "keyLess [] (y # ys) = True"
| "keyLess (x # xs) [] = False"
| "keyLess (x # xs) (y # ys) =
     ((of_char x :: nat) < of_char y \<or> (x = y \<and> keyLess xs ys))"

fun insertKey :: "string \<times> json \<Rightarrow> (string \<times> json) list \<Rightarrow> (string \<times> json) list" where
  "insertKey kv [] = [kv]"
| "insertKey kv (x # xs) =
     (if keyLess (fst kv) (fst x) then kv # x # xs else x # insertKey kv xs)"

definition sortKeys :: "(string \<times> json) list \<Rightarrow> (string \<times> json) list" where
  "sortKeys kvs = foldr insertKey kvs []"

primrec sortJson :: "json \<Rightarrow> json" where
  "sortJson JNull = JNull"
| "sortJson (JBool b) = JBool b"
| "sortJson (JNum k) = JNum k"
| "sortJson (JStr t) = JStr t"
| "sortJson (JArr xs) = JArr (map sortJson xs)"
| "sortJson (JObj kvs) = JObj (sortKeys (map (map_prod id sortJson) kvs))"

definition jsonToBytes :: "patch list \<Rightarrow> bytes" where
  "jsonToBytes ps = demoBytes (stringify (JArr (map patchJson ps)))"

definition canonicalPatches :: "patch list \<Rightarrow> bytes" where
  "canonicalPatches ps = demoBytes (stringify (sortJson (JArr (map patchJson ps))))"

definition jsonEnv :: "demo_log env" where
  "jsonEnv =
     demoEnv\<lparr>toBytes := jsonToBytes,
             canonicalize := (\<lambda>j. case j of None \<Rightarrow> [] | Some x \<Rightarrow> stringify (sortJson x))\<rparr>"

text \<open>Metadata whose properties are not in the order of their names.\<close>

definition demoUnsorted :: json where
  "demoUnsorted = JObj [(''b'', JNum 1), (''a'', JNum 2)]"

section \<open>Notions used in the statements\<close>

text \<open>
  The vertex after the three reconcilers have run in the order in which \<^verbatim>\<open>create\<close> and
  \<^verbatim>\<open>update\<close> call them.
\<close>

definition reconcile ::
  "'imm env \<Rightarrow> context \<Rightarrow> vertex \<Rightarrow> item list option \<Rightarrow> item list option \<Rightarrow>
     edge_item list option \<Rightarrow> error + vertex" where
  "reconcile env ctx vertexModel aliases resources edges =
     andThen (updateAliasList env ctx vertexModel aliases) (\<lambda>vertexModel.
     andThen (updateResourceList env ctx vertexModel resources) (\<lambda>vertexModel.
     updateEdgeList env ctx vertexModel edges))"

text \<open>The elements of an optional array, none when the property is missing.\<close>

definition elems :: "'a list option \<Rightarrow> 'a list" where
  "elems xs = (case xs of None \<Rightarrow> [] | Some ys \<Rightarrow> ys)"

text \<open>
  The digest of a changeset: Blake2b-256 over the byte concatenation, with no separators,
  of the raw digest of the previous changeset (empty for the first one), the decimal
  representation of \<^verbatim>\<open>created\<close>, the bytes of \<^verbatim>\<open>userIdentity\<close> and the bytes that
  \<^verbatim>\<open>ObjectHelper.toBytes\<close> returns for the patches. A list of changesets is a hash chain
  from \<open>prev\<close> when each stored hash is the base64 of that digest.
\<close>

definition specDigest :: "'imm env \<Rightarrow> bytes \<Rightarrow> changeset \<Rightarrow> bytes" where
  "specDigest env prev c =
     blake2b256 env
       (prev @ utf8ToBytes env (numberToString (cs_created c)) @
        utf8ToBytes env (cs_userIdentity c) @ toBytes env (cs_patches c))"

fun specChain :: "'imm env \<Rightarrow> bytes \<Rightarrow> changeset list \<Rightarrow> bool" where
  "specChain env prev [] = True"
| "specChain env prev (c # cs) =
     (cs_hash c = bytesToBase64 env (specDigest env prev c) \<and>
      specChain env (specDigest env prev c) cs)"

text \<open>
  The digest with a canonical serialization of the patches in the place of
  \<^verbatim>\<open>ObjectHelper.toBytes\<close>.
\<close>

definition canonicalDigest ::
  "'imm env \<Rightarrow> (patch list \<Rightarrow> bytes) \<Rightarrow> bytes \<Rightarrow> changeset \<Rightarrow> bytes" where
  "canonicalDigest env canonical prev c =
     blake2b256 env
       (prev @ utf8ToBytes env (numberToString (cs_created c)) @
        utf8ToBytes env (cs_userIdentity c) @ canonical (cs_patches c))"

text \<open>The digests of a list of changesets, each chained to the digest before it.\<close>

fun digests :: "'imm env \<Rightarrow> bytes \<Rightarrow> changeset list \<Rightarrow> bytes list" where
  "digests env prev [] = []"
| "digests env prev (c # cs) = specDigest env prev c # digests env (specDigest env prev c) cs"

text \<open>
  A changeset after \<^verbatim>\<open>removeImmutable\<close> has visited it: without its immutable storage id
  when that was a string value, and as it was otherwise.
\<close>

definition detach :: "changeset \<Rightarrow> changeset" where
  "detach c =
     (if stringValue (cs_immutableStorageId c) then c\<lparr>cs_immutableStorageId := None\<rparr> else c)"

text \<open>The ids of the elements are unique within each collection of a stored vertex.\<close>

definition uniqueIds :: "vertex_entity \<Rightarrow> bool" where
  "uniqueIds e =
     (distinct (map ee_id (elems (e_aliases e))) \<and>
      distinct (map ee_id (elems (e_resources e))) \<and>
      distinct (map ee_id (elems (e_edges e))))"

text \<open>No update list names the id of an element of the stored vertex that is deleted.\<close>

definition noDeletedResupply ::
  "vertex_entity \<Rightarrow> item list option \<Rightarrow> item list option \<Rightarrow> edge_item list option \<Rightarrow> bool" where
  "noDeletedResupply e aliases resources edges =
     (list_all (\<lambda>a. ee_deleted a = None \<or> \<not> inUpdateList (ee_id a) aliases)
        (elems (e_aliases e)) \<and>
      list_all (\<lambda>a. ee_deleted a = None \<or> \<not> inUpdateList (ee_id a) resources)
        (elems (e_resources e)) \<and>
      list_all (\<lambda>a. ee_deleted a = None \<or> \<not> inUpdateList (ee_id a) edges)
        (elems (e_edges e)))"

text \<open>
  The states reached when no update names the id of a deleted element of the vertex that
  it updates.
\<close>

inductive reachableFresh :: "'imm env \<Rightarrow> 'imm state \<Rightarrow> bool" for env :: "'imm env" where
  fresh_init: "reachableFresh env \<lparr>vertexStorage = [], immutableStorage = imm\<rparr>"
| fresh_create:
    "reachableFresh env st \<Longrightarrow>
     create env t i metadataSchema metadata aliases resources edges identity node st =
       Inr (urn, st') \<Longrightarrow>
     reachableFresh env st'"
| fresh_update:
    "reachableFresh env st \<Longrightarrow>
     urnFromValidString env i = Inr (namespace, vertexId) \<Longrightarrow>
     storageGet (vertexStorage st) vertexId = Some e \<Longrightarrow>
     noDeletedResupply e aliases resources edges \<Longrightarrow>
     update env t i metadataSchema metadata aliases resources edges identity node st =
       Inr st' \<Longrightarrow>
     reachableFresh env st'"
| fresh_removeImmutable:
    "reachableFresh env st \<Longrightarrow> removeImmutable env i node st = Inr st' \<Longrightarrow>
     reachableFresh env st'"

text \<open>
  What the specification requires of the difference of two vertices when the metadata or
  the metadata schema is removed: a \<^verbatim>\<open>remove\<close> operation for its path.
\<close>

definition removePatch :: "string \<Rightarrow> patch" where
  "removePatch path' = \<lparr>p_op = Remove, p_path = path', p_from = None, p_value = None\<rparr>"

definition diffReportsRemoval :: "'imm env \<Rightarrow> bool" where
  "diffReportsRemoval env =
     (\<forall>a b.
        (v_metadata a \<noteq> None \<and> v_metadata b = None \<longrightarrow>
           removePatch ''/metadata'' \<in> set (diff env a b)) \<and>
        (v_metadataSchema a \<noteq> None \<and> v_metadataSchema b = None \<longrightarrow>
           removePatch ''/metadataSchema'' \<in> set (diff env a b)))"

text \<open>
  Three states of the concrete environment, written out: a vertex created at epoch 10
  with the aliases \<open>Foo\<close> and \<open>b\<close>; the same vertex updated at epoch 20 with the alias \<open>b\<close>
  alone; and updated again at epoch 30 with both aliases. That the operations return
  these states is proved below.
\<close>

definition demoChangeset :: "nat \<Rightarrow> string \<Rightarrow> string \<Rightarrow> changeset" where
  "demoChangeset t h k =
     \<lparr>cs_created = t, cs_userIdentity = ''u'',
      cs_patches = [\<lparr>p_op = Replace, p_path = ''/aliases'', p_from = None, p_value = None\<rparr>],
      cs_hash = h, cs_immutableStorageId = Some k\<rparr>"

definition demoAlias :: "string \<Rightarrow> nat \<Rightarrow> nat option \<Rightarrow> element_entity" where
  "demoAlias i t d =
     \<lparr>ee_id = i, ee_created = t, ee_deleted = d, ee_metadataSchema = None,
      ee_metadata = None\<rparr>"

definition demoEntity ::
  "nat \<Rightarrow> string \<Rightarrow> element_entity list \<Rightarrow> changeset list \<Rightarrow> vertex_entity" where
  "demoEntity t index as cs =
     \<lparr>e_id = ''01'', e_created = 10, e_updated = t, e_nodeIdentity = ''n'',
      e_metadataSchema = None, e_metadata = None, e_aliasIndex = Some index,
      e_aliases = Some as, e_resources = None, e_edges = None, e_changesets = Some cs\<rparr>"

definition demoChangesets :: "changeset list" where
  "demoChangesets =
     [demoChangeset 10 [CHR ''='', CHR 0x0C] ''immutable:0'',
      demoChangeset 20 [CHR 0xCB, CHR 0x0E] ''immutable:1'',
      demoChangeset 30 [CHR ''^'', CHR 0x0E] ''immutable:2'']"

definition demoState1 :: "demo_log state" where
  "demoState1 =
     \<lparr>vertexStorage =
        [demoEntity 10 ''foo||b'' [demoAlias ''Foo'' 10 None, demoAlias ''b'' 10 None]
           (take 1 demoChangesets)],
      immutableStorage = (1, [(''immutable:0'', [99, 24, 126])])\<rparr>"

definition demoState2 :: "demo_log state" where
  "demoState2 =
     \<lparr>vertexStorage =
        [demoEntity 20 ''foo||b'' [demoAlias ''Foo'' 10 (Some 20), demoAlias ''b'' 10 None]
           (take 2 demoChangesets)],
      immutableStorage =
        (2, [(''immutable:0'', [99, 24, 126]), (''immutable:1'', [151, 24, 126])])\<rparr>"

definition demoState3 :: "demo_log state" where
  "demoState3 =
     \<lparr>vertexStorage =
        [demoEntity 30 ''foo||b||foo''
           [demoAlias ''Foo'' 10 (Some 20), demoAlias ''b'' 10 None,
            demoAlias ''Foo'' 30 None]
           demoChangesets],
      immutableStorage =
        (3, [(''immutable:0'', [99, 24, 126]), (''immutable:1'', [151, 24, 126]),
             (''immutable:2'', [100, 24, 126])])\<rparr>"

text \<open>
  The third state updated at epoch 40 with the same two aliases again, as \<^verbatim>\<open>update\<close>
  returns it.
\<close>

definition demoState4 :: "demo_log state" where
  "demoState4 =
     \<lparr>vertexStorage =
        [demoEntity 40 ''foo||b||foo||foo''
           [demoAlias ''Foo'' 10 (Some 20), demoAlias ''b'' 10 None,
            demoAlias ''Foo'' 30 None, demoAlias ''Foo'' 40 None]
           (demoChangesets @ [demoChangeset 40 [CHR 0x0A, CHR 0x0E] ''immutable:3''])],
      immutableStorage =
        (4, [(''immutable:0'', [99, 24, 126]), (''immutable:1'', [151, 24, 126]),
             (''immutable:2'', [100, 24, 126]), (''immutable:3'', [56, 24, 126])])\<rparr>"

text \<open>
  The second state with a deleted resource and two edges, the first of them deleted, in
  the storage.
\<close>

definition demoEdge :: "string \<Rightarrow> nat \<Rightarrow> nat option \<Rightarrow> edge_entity" where
  "demoEdge i t d =
     \<lparr>ee_id = i, ee_created = t, ee_deleted = d, ee_metadataSchema = None,
      ee_metadata = None, ee_relationship = ''friend''\<rparr>"

definition demoTombstones :: "demo_log state" where
  "demoTombstones =
     demoState2\<lparr>vertexStorage :=
       map (\<lambda>e. e\<lparr>e_resources := Some [demoAlias ''r'' 10 (Some 20)],
                   e_edges := Some [demoEdge ''x'' 10 (Some 20), demoEdge ''y'' 10 None]\<rparr>)
         (vertexStorage demoState2)\<rparr>"

text \<open>The vertex of the third state with the stored hash of its second changeset altered.\<close>

definition demoHashAltered :: vertex where
  "demoHashAltered =
     (vertexEntityToModel (hd (vertexStorage demoState3)))
       \<lparr>v_changesets := Some (demoChangesets[1 := (demoChangesets ! 1)\<lparr>cs_hash := ''XX''\<rparr>])\<rparr>"

text \<open>The first state with the path of the patch of its changeset altered in the storage.\<close>

definition demoTamperedPatch :: "demo_log state" where
  "demoTamperedPatch =
     demoState1\<lparr>vertexStorage :=
       map (\<lambda>e. e\<lparr>e_changesets :=
         map_option (map (\<lambda>c. c\<lparr>cs_patches :=
           map (\<lambda>p. p\<lparr>p_path := ''/resources''\<rparr>) (cs_patches c)\<rparr>)) (e_changesets e)\<rparr>)
         (vertexStorage demoState1)\<rparr>"

definition demoVerifyAll :: "get_options option" where
  "demoVerifyAll =
     Some \<lparr>includeDeleted = None, includeChangesets = None,
            verifySignatureDepth = Some DepthAll\<rparr>"



text \<open>
  The invariant of a collection while an update list is applied: the ids are distinct,
  and no element whose id is in the list is deleted.
\<close>

definition liveInList :: "string set \<Rightarrow> ('a element_scheme) list \<Rightarrow> bool" where
  "liveInList ids xs \<longleftrightarrow>
     distinct (map el_id xs) \<and> (\<forall>a \<in> set xs. el_id a \<in> ids \<longrightarrow> \<not> truthy (el_deleted a))"

text \<open>
  An input of \<^verbatim>\<open>addChangeset\<close>: the model of the vertex of the first state, and the same
  model with metadata.
\<close>

definition demoContext :: "context" where
  "demoContext = \<lparr>now = 20, userIdentity = ''u'', nodeIdentity = ''n''\<rparr>"

definition demoOriginal :: vertex where
  "demoOriginal = vertexEntityToModel (hd (vertexStorage demoState1))"

definition demoUpdated :: vertex where
  "demoUpdated = demoOriginal\<lparr>v_metadata := Some JNull\<rparr>"

text \<open>A vertex created at epoch 10 with a metadata schema and metadata.\<close>

definition demoMeta1 :: "demo_log state" where
  "demoMeta1 =
     \<lparr>vertexStorage =
        [\<lparr>e_id = ''02'', e_created = 10, e_updated = 10, e_nodeIdentity = ''n'',
          e_metadataSchema = Some ''S'', e_metadata = Some (JStr ''m''), e_aliasIndex = None,
          e_aliases = None, e_resources = None, e_edges = None,
          e_changesets = Some
            [\<lparr>cs_created = 10, cs_userIdentity = ''u'',
              cs_patches =
                [\<lparr>p_op = Add, p_path = ''/metadataSchema'', p_from = None,
                  p_value = Some (JStr ''S'')\<rparr>,
                 \<lparr>p_op = Add, p_path = ''/metadata'', p_from = None,
                  p_value = Some (JStr ''m'')\<rparr>],
              cs_hash = [CHR ''('', CHR 0x1D],
              cs_immutableStorageId = Some ''immutable:0''\<rparr>]\<rparr>],
      immutableStorage = (1, [(''immutable:0'', [233, 24, 126])])\<rparr>"



section \<open>Basic facts\<close>

lemma andThen_Inl [simp]: "andThen (Inl e) f = Inl e"
  by (simp add: andThen_def)

lemma andThen_Inr [simp]: "andThen (Inr x) f = f x"
  by (simp add: andThen_def)

lemma andThen_eq_Inr: "andThen r f = Inr y \<longleftrightarrow> (\<exists>x. r = Inr x \<and> f x = Inr y)"
  by (cases r) simp_all

lemma wrap_eq_Inr [simp]: "wrap name r = Inr x \<longleftrightarrow> r = Inr x"
  by (cases r) (simp_all add: wrap_def)

lemma arrayValue_simps [simp]:
  "arrayValue None = False"
  "arrayValue (Some xs) = (xs \<noteq> [])"
  by (simp_all add: arrayValue_def)

lemma guardStringValue_simps [simp]:
  "guardStringValue None = False"
  "guardStringValue (Some s) = (s \<noteq> [])"
  by (simp_all add: guardStringValue_def)

lemma trim_empty: "trim s = [] \<longleftrightarrow> (\<forall>c \<in> set s. whiteSpace c)"
proof -
  have "dropWhile whiteSpace (rev (dropWhile whiteSpace s)) = [] \<longleftrightarrow>
      (\<forall>c \<in> set (dropWhile whiteSpace s). whiteSpace c)"
    by (simp add: dropWhile_eq_Nil_conv)
  also have "\<dots> \<longleftrightarrow> dropWhile whiteSpace s = []"
  proof
    assume a: "\<forall>c \<in> set (dropWhile whiteSpace s). whiteSpace c"
    show "dropWhile whiteSpace s = []"
    proof (rule ccontr)
      assume n: "dropWhile whiteSpace s \<noteq> []"
      then have "\<not> whiteSpace (hd (dropWhile whiteSpace s))" by (rule hd_dropWhile)
      moreover from n have "hd (dropWhile whiteSpace s) \<in> set (dropWhile whiteSpace s)"
        by simp
      ultimately show False using a by blast
    qed
  next
    assume e: "dropWhile whiteSpace s = []"
    show "\<forall>c \<in> set (dropWhile whiteSpace s). whiteSpace c" unfolding e by simp
  qed
  also have "\<dots> \<longleftrightarrow> (\<forall>c \<in> set s. whiteSpace c)"
    by (simp add: dropWhile_eq_Nil_conv)
  finally show ?thesis by (simp add: trim_def)
qed

lemma stringValue_simps [simp]:
  "stringValue None = False"
  "stringValue (Some s) = (\<exists>c \<in> set s. \<not> whiteSpace c)"
  using trim_empty [of s] by (auto simp: stringValue_def)

lemma stringValue_guard: "stringValue s \<Longrightarrow> guardStringValue s"
  by (cases s) auto

lemma truthy_simps [simp]:
  "truthy None = False"
  "truthy (Some n) = (n \<noteq> 0)"
  by (simp_all add: truthy_def)

lemma inUpdateList_simps [simp]:
  "inUpdateList i None = False"
  "inUpdateList i (Some []) = False"
  by (simp_all add: inUpdateList_def)

lemma numberToString_decimal: "numberToString 1724327716271 = ''1724327716271''"
  apply (simp add: digitChar_def)
  apply code_simp
  done

lemma elems_simps [simp]: "elems None = []" "elems (Some xs) = xs"
  by (simp_all add: elems_def)

lemma storageGet_SomeD: "storageGet store k = Some e \<Longrightarrow> e_id e = k \<and> e \<in> set store"
  unfolding storageGet_def by (induction store) (auto split: if_splits)

lemma storageGet_storageSet:
  "storageGet (storageSet e store) k = (if k = e_id e then Some e else storageGet store k)"
  unfolding storageGet_def by (induction store) auto

lemma set_storageSet: "set (storageSet e store) \<subseteq> insert e (set store)"
  by (induction store) auto

lemma reconcile_chain:
  "andThen (updateAliasList env ctx v aliases) (\<lambda>vertexModel.
     andThen (updateResourceList env ctx vertexModel resources) (\<lambda>vertexModel.
     andThen (updateEdgeList env ctx vertexModel edges) k)) =
   andThen (reconcile env ctx v aliases resources edges) k"
  unfolding reconcile_def
  by (cases "updateAliasList env ctx v aliases"; simp)
     (rename_tac v1, case_tac "updateResourceList env ctx v1 resources"; simp)

lemma create_Inr:
  assumes "create env t i ms md aliases resources edges ident node st = Inr (urn, st')"
  shows "\<exists>vm changes vm' imm'.
     guardStringValue ident \<and> guardStringValue node \<and>
     reconcile env \<lparr>now = t, userIdentity = the ident, nodeIdentity = the node\<rparr>
       \<lparr>v_id = i, v_nodeIdentity = the node, v_created = t, v_updated = t,
         v_metadataSchema = ms, v_metadata = md, v_aliases = None, v_resources = None,
         v_edges = None, v_changesets = None\<rparr> aliases resources edges = Inr vm \<and>
     addChangeset env \<lparr>now = t, userIdentity = the ident, nodeIdentity = the node\<rparr>
       \<lparr>v_id = i, v_nodeIdentity = the node, v_created = t, v_updated = t,
         v_metadataSchema = None, v_metadata = None, v_aliases = None, v_resources = None,
         v_edges = None, v_changesets = None\<rparr> vm (immutableStorage st) = Inr (changes, vm', imm') \<and>
     urn = urnToString NAMESPACE i \<and>
     st' = \<lparr>vertexStorage = storageSet (vertexModelToEntity vm') (vertexStorage st),
            immutableStorage = imm'\<rparr>"
  using assms unfolding create_def reconcile_chain Let_def
  by (auto simp: andThen_eq_Inr split: if_splits)

lemma update_Inr:
  assumes "update env t i ms md aliases resources edges ident node st = Inr st'"
  shows "\<exists>vid e vm changes vm' imm'.
     i \<noteq> [] \<and> guardStringValue ident \<and> guardStringValue node \<and>
     urnFromValidString env i = Inr (NAMESPACE, vid) \<and>
     storageGet (vertexStorage st) vid = Some e \<and>
     reconcile env \<lparr>now = t, userIdentity = the ident, nodeIdentity = the node\<rparr>
       ((vertexEntityToModel e)\<lparr>v_metadataSchema := ms, v_metadata := md\<rparr>)
       aliases resources edges = Inr vm \<and>
     addChangeset env \<lparr>now = t, userIdentity = the ident, nodeIdentity = the node\<rparr>
       (vertexEntityToModel e) vm (immutableStorage st) = Inr (changes, vm', imm') \<and>
     st' = (if changes
            then \<lparr>vertexStorage =
                    storageSet (vertexModelToEntity (vm'\<lparr>v_updated := t\<rparr>)) (vertexStorage st),
                  immutableStorage = imm'\<rparr>
            else st\<lparr>immutableStorage := imm'\<rparr>)"
  using assms unfolding update_def reconcile_chain Let_def
  by (auto simp: andThen_eq_Inr split: if_splits option.splits)

lemma removeImmutable_Inr:
  assumes "removeImmutable env i node st = Inr st'"
  shows "\<exists>vid e imm hasChanged changesets.
     i \<noteq> [] \<and> guardStringValue node \<and>
     urnFromValidString env i = Inr (NAMESPACE, vid) \<and>
     storageGet (vertexStorage st) vid = Some e \<and>
     forEach (removeImmutableStep env (the node)) (immutableStorage st, False, [])
       (elems (e_changesets e)) = Inr (imm, hasChanged, changesets) \<and>
     st' = (if hasChanged
            then \<lparr>vertexStorage =
                    storageSet (e\<lparr>e_changesets := Some changesets\<rparr>) (vertexStorage st),
                  immutableStorage = imm\<rparr>
            else st\<lparr>immutableStorage := imm\<rparr>)"
proof -
  from assms obtain vid e where
    a: "i \<noteq> []" "guardStringValue node" "urnFromValidString env i = Inr (NAMESPACE, vid)"
       "storageGet (vertexStorage st) vid = Some e" and
    b: "(if arrayValue (e_changesets e) then
           andThen
             (forEach (removeImmutableStep env (the node))
                (immutableStorage st, False, []) (the (e_changesets e)))
             (\<lambda>(imm, hasChanged, changesets).
               if hasChanged then
                 Inr \<lparr>vertexStorage =
                        storageSet (e\<lparr>e_changesets := Some changesets\<rparr>) (vertexStorage st),
                      immutableStorage = imm\<rparr>
               else Inr (st\<lparr>immutableStorage := imm\<rparr>))
         else Inr st) = Inr st'"
    unfolding removeImmutable_def
    by (auto simp: andThen_eq_Inr split: if_splits option.splits)
  show ?thesis
  proof (cases "arrayValue (e_changesets e)")
    case True
    then have el: "elems (e_changesets e) = the (e_changesets e)"
      by (cases "e_changesets e") simp_all
    from b True obtain imm hasChanged changesets where
      "forEach (removeImmutableStep env (the node)) (immutableStorage st, False, [])
         (the (e_changesets e)) = Inr (imm, hasChanged, changesets)"
      "st' = (if hasChanged
            then \<lparr>vertexStorage =
                    storageSet (e\<lparr>e_changesets := Some changesets\<rparr>) (vertexStorage st),
                  immutableStorage = imm\<rparr>
            else st\<lparr>immutableStorage := imm\<rparr>)"
      by (auto simp: andThen_eq_Inr split: if_splits)
    with a el show ?thesis by metis
  next
    case False
    then have el: "elems (e_changesets e) = []"
      by (cases "e_changesets e") simp_all
    from b False have "st' = st" by simp
    then have "forEach (removeImmutableStep env (the node)) (immutableStorage st, False, [])
       (elems (e_changesets e)) = Inr (immutableStorage st, False, []) \<and>
       st' = (if False
            then \<lparr>vertexStorage =
                    storageSet (e\<lparr>e_changesets := Some []\<rparr>) (vertexStorage st),
                  immutableStorage = immutableStorage st\<rparr>
            else st\<lparr>immutableStorage := immutableStorage st\<rparr>)"
      using el by simp
    with a show ?thesis by blast
  qed
qed

section \<open>The concrete states\<close>

lemma demoState1_create:
  "create demoEnv 10 ''01'' None None (Some [demoItem ''Foo'', demoItem ''b''])
     None None (Some ''u'') (Some ''n'') demoInit = Inr (''aig:01'', demoState1)"
  by code_simp

lemma demoState2_update:
  "update demoEnv 20 ''aig:01'' None None (Some [demoItem ''b''])
             None None (Some ''u'') (Some ''n'') demoState1 = Inr demoState2"
  by code_simp

lemma demoState3_update:
  "update demoEnv 30 ''aig:01'' None None (Some [demoItem ''Foo'', demoItem ''b''])
             None None (Some ''u'') (Some ''n'') demoState2 = Inr demoState3"
  by code_simp

lemma demo_reachable1: "reachable demoEnv demoState1"
  using reachable_create [OF reachable_init demoState1_create [unfolded demoInit_def]] .

lemma demo_reachable2: "reachable demoEnv demoState2"
  using reachable_update [OF demo_reachable1 demoState2_update] .

lemma demo_reachable3: "reachable demoEnv demoState3"
  using reachable_update [OF demo_reachable2 demoState3_update] .

lemma demoState4_update:
  "update demoEnv 40 ''aig:01'' None None (Some [demoItem ''Foo'', demoItem ''b''])
             None None (Some ''u'') (Some ''n'') demoState3 = Inr demoState4"
  by code_simp

lemma demo_reachable4: "reachable demoEnv demoState4"
  using reachable_update [OF demo_reachable3 demoState4_update] .

lemma demoMeta1_create:
  "create demoEnv 10 ''02'' (Some ''S'') (Some (JStr ''m'')) None None None
     (Some ''u'') (Some ''n'') demoInit = Inr (''aig:02'', demoMeta1)"
  by code_simp

lemma demo_roundtrip: "\<forall>bs. base64ToBytes demoEnv (bytesToBase64 demoEnv bs) = bs"
proof
  fix bs :: bytes
  have "of_nat (of_char (char_of (unat b))) = b" for b :: "8 word"
  proof -
    have "unat b < 2 ^ LENGTH(8)" by (rule unsigned_less)
    then have "unat b < 256" by simp
    then have "(of_char (char_of (unat b)) :: nat) = unat b" by simp
    then show ?thesis by simp
  qed
  then have "demoBytes (demoText bs) = bs"
    by (simp add: demoBytes_def demoText_def comp_def)
  then show "base64ToBytes demoEnv (bytesToBase64 demoEnv bs) = bs"
    by (simp add: demoEnv_def)
qed

lemma demo_diffReportsRemoval: "diffReportsRemoval demoEnv"
  by (auto simp: diffReportsRemoval_def demoEnv_def demoDiff_def demoFieldDiff_def removePatch_def
      split: option.splits)

lemma demo_urn: "urnFromValidString demoEnv ''aig:01'' = Inr (NAMESPACE, ''01'')"
  by code_simp

lemma demo_target1:
  "storageGet (vertexStorage demoState1) ''01'' = Some (hd (vertexStorage demoState1))"
  by code_simp

lemma demo_noop:
  "update demoEnv 20 ''aig:01'' None None (Some [demoItem ''Foo'', demoItem ''b''])
     None None (Some ''u'') (Some ''n'') demoState1 = Inr demoState1"
  by code_simp

lemma demo_addChangeset_noop:
  "addChangeset demoEnv demoContext demoOriginal demoOriginal (immutableStorage demoState1) =
     Inr (False, demoOriginal, immutableStorage demoState1)"
  by code_simp

lemma demo_addChangeset:
  "addChangeset demoEnv demoContext demoOriginal demoUpdated (immutableStorage demoState1) =
     Inr (True,
       fst (snd (projr (addChangeset demoEnv demoContext demoOriginal demoUpdated
         (immutableStorage demoState1)))),
       snd (snd (projr (addChangeset demoEnv demoContext demoOriginal demoUpdated
         (immutableStorage demoState1)))))"
  by code_simp

lemma demoState2_changed: "demoState2 \<noteq> demoState1"
  by (simp add: demoState2_def demoState1_def)

section \<open>Absent and empty update lists\<close>

lemma updateAliasList_empty: "updateAliasList env ctx v (Some []) = updateAliasList env ctx v None"
  by (simp add: updateAliasList_def)

lemma updateResourceList_empty:
  "updateResourceList env ctx v (Some []) = updateResourceList env ctx v None"
  by (simp add: updateResourceList_def)

lemma updateEdgeList_empty: "updateEdgeList env ctx v (Some []) = updateEdgeList env ctx v None"
  by (simp add: updateEdgeList_def)

lemma update_empty_lists:
  "update env t i ms md (Some []) (Some []) (Some []) ident node st =
   update env t i ms md None None None ident node st"
  unfolding update_def updateAliasList_empty updateResourceList_empty updateEdgeList_empty ..

lemma create_empty_lists:
  "create env t i ms md (Some []) (Some []) (Some []) ident node st =
   create env t i ms md None None None ident node st"
  unfolding create_def updateAliasList_empty updateResourceList_empty updateEdgeList_empty ..

text \<open>
  C3, as the claim states it, fails: the vertex created at epoch 10 with the aliases
  \<open>Foo\<close> and \<open>b\<close> is updated at epoch 20 with no list passed at all; both stored aliases are
  then marked deleted at 20, where the claim says that an absent list leaves the
  collection untouched.
\<close>

theorem C3_absent_list_counterexample:
  "create demoEnv 10 ''01'' None None (Some [demoItem ''Foo'', demoItem ''b''])
     None None (Some ''u'') (Some ''n'') demoInit = Inr (''aig:01'', demoState1) \<and>
   (case update demoEnv 20 ''aig:01'' None None None None None (Some ''u'') (Some ''n'')
           demoState1 of
      Inl e \<Rightarrow> False
    | Inr st' \<Rightarrow>
        map_option (map ee_deleted)
          (e_aliases (the (storageGet (vertexStorage st') ''01''))) =
        Some [Some 20, Some 20])"
proof -
  have "(case update demoEnv 20 ''aig:01'' None None None None None (Some ''u'') (Some ''n'')
           demoState1 of
      Inl e \<Rightarrow> False
    | Inr st' \<Rightarrow>
        map_option (map ee_deleted)
          (e_aliases (the (storageGet (vertexStorage st') ''01''))) =
        Some [Some 20, Some 20])"
    by code_simp
  with demoState1_create show ?thesis by simp
qed

text \<open>
  C3, amended: the reconcilers do not distinguish an absent update list from an empty one.
  With either, every element of the collection that is not yet deleted is marked deleted
  at the epoch of the call and nothing else changes, for aliases, resources and edges
  alike; and an update or a creation with the three lists absent is the one with three
  empty lists.
\<close>

theorem C3_absent_list_same_as_empty:
  "updateAliasList env ctx v None =
     Inr (v\<lparr>v_aliases := map_option (map (\<lambda>a.
       if el_deleted a = None then a\<lparr>el_deleted := Some (now ctx)\<rparr> else a)) (v_aliases v)\<rparr>)
   \<and> updateAliasList env ctx v (Some []) = updateAliasList env ctx v None
   \<and> updateResourceList env ctx v None =
     Inr (v\<lparr>v_resources := map_option (map (\<lambda>a.
       if el_deleted a = None then a\<lparr>el_deleted := Some (now ctx)\<rparr> else a)) (v_resources v)\<rparr>)
   \<and> updateResourceList env ctx v (Some []) = updateResourceList env ctx v None
   \<and> updateEdgeList env ctx v None =
     Inr (v\<lparr>v_edges := map_option (map (\<lambda>a.
       if el_deleted a = None then a\<lparr>el_deleted := Some (now ctx)\<rparr> else a)) (v_edges v)\<rparr>)
   \<and> updateEdgeList env ctx v (Some []) = updateEdgeList env ctx v None
   \<and> update env t i ms md (Some []) (Some []) (Some []) ident node st =
     update env t i ms md None None None ident node st
   \<and> create env t i ms md (Some []) (Some []) (Some []) ident node st =
     create env t i ms md None None None ident node st"
proof -
  have "updateAliasList env ctx v None =
     Inr (v\<lparr>v_aliases := map_option (map (\<lambda>a.
       if el_deleted a = None then a\<lparr>el_deleted := Some (now ctx)\<rparr> else a)) (v_aliases v)\<rparr>)"
    by (simp add: updateAliasList_def)
  moreover have "updateResourceList env ctx v None =
     Inr (v\<lparr>v_resources := map_option (map (\<lambda>a.
       if el_deleted a = None then a\<lparr>el_deleted := Some (now ctx)\<rparr> else a)) (v_resources v)\<rparr>)"
    by (simp add: updateResourceList_def)
  moreover have "updateEdgeList env ctx v None =
     Inr (v\<lparr>v_edges := map_option (map (\<lambda>a.
       if el_deleted a = None then a\<lparr>el_deleted := Some (now ctx)\<rparr> else a)) (v_edges v)\<rparr>)"
    by (simp add: updateEdgeList_def)
  ultimately show ?thesis
    using updateAliasList_empty [of env ctx v] updateResourceList_empty [of env ctx v]
      updateEdgeList_empty [of env ctx v] update_empty_lists [of env t i ms md ident node st]
      create_empty_lists [of env t i ms md ident node st]
    by blast
qed

section \<open>The alias index\<close>

lemma aliasIndex_modelToEntity:
  "e_aliasIndex (vertexModelToEntity v) =
     (case e_aliases (vertexModelToEntity v) of None \<Rightarrow> None
      | Some xs \<Rightarrow> Some (toLowerCase (join ''||'' (map ee_id xs)))) \<and>
   e_aliases (vertexModelToEntity v) \<noteq> Some []"
  by (cases "v_aliases v") (simp_all add: vertexModelToEntity_def aliasModelToEntity_def comp_def)

text \<open>
  C6: in every state the service can reach, every stored vertex has the alias index that
  its stored aliases determine: the ids of all its aliases, deleted ones included, in
  their order, joined with \<open>||\<close> and lowercased; and no index when it has no aliases (a
  stored vertex never has an empty array of aliases).
\<close>

theorem C6_aliasIndex:
  assumes "reachable env st" and "e \<in> set (vertexStorage st)"
  shows "e_aliasIndex e =
     (case e_aliases e of None \<Rightarrow> None
      | Some xs \<Rightarrow> Some (toLowerCase (join ''||'' (map ee_id xs)))) \<and>
     e_aliases e \<noteq> Some []"
  using assms
proof (induction arbitrary: e rule: reachable.induct)
  case (reachable_init imm)
  then show ?case by simp
next
  case (reachable_create st t i metadataSchema metadata aliases resources edges identity node urn st')
  from create_Inr [OF reachable_create.hyps(2)] obtain vm' imm' where
    "st' = \<lparr>vertexStorage = storageSet (vertexModelToEntity vm') (vertexStorage st),
            immutableStorage = imm'\<rparr>" by blast
  with reachable_create.prems set_storageSet [of "vertexModelToEntity vm'" "vertexStorage st"]
  have "e = vertexModelToEntity vm' \<or> e \<in> set (vertexStorage st)" by auto
  then show ?case using reachable_create.IH aliasIndex_modelToEntity by blast
next
  case (reachable_update st t i metadataSchema metadata aliases resources edges identity node st')
  from update_Inr [OF reachable_update.hyps(2)] obtain changes vm' imm' where
    "st' = (if changes
            then \<lparr>vertexStorage =
                    storageSet (vertexModelToEntity (vm'\<lparr>v_updated := t\<rparr>)) (vertexStorage st),
                  immutableStorage = imm'\<rparr>
            else st\<lparr>immutableStorage := imm'\<rparr>)" by blast
  with reachable_update.prems
    set_storageSet [of "vertexModelToEntity (vm'\<lparr>v_updated := t\<rparr>)" "vertexStorage st"]
  have "e = vertexModelToEntity (vm'\<lparr>v_updated := t\<rparr>) \<or> e \<in> set (vertexStorage st)"
    by (auto split: if_splits)
  then show ?case using reachable_update.IH aliasIndex_modelToEntity by blast
next
  case (reachable_removeImmutable st i node st')
  from removeImmutable_Inr [OF reachable_removeImmutable.hyps(2)]
  obtain vid e0 imm hasChanged changesets where
    g: "storageGet (vertexStorage st) vid = Some e0" and
    s: "st' = (if hasChanged
            then \<lparr>vertexStorage =
                    storageSet (e0\<lparr>e_changesets := Some changesets\<rparr>) (vertexStorage st),
                  immutableStorage = imm\<rparr>
            else st\<lparr>immutableStorage := imm\<rparr>)" by blast
  from s reachable_removeImmutable.prems
    set_storageSet [of "e0\<lparr>e_changesets := Some changesets\<rparr>" "vertexStorage st"]
  have "e = e0\<lparr>e_changesets := Some changesets\<rparr> \<or> e \<in> set (vertexStorage st)"
    by (auto split: if_splits)
  moreover have "e0 \<in> set (vertexStorage st)" using storageGet_SomeD [OF g] by simp
  ultimately show ?case using reachable_removeImmutable.IH by auto
qed

theorem C6_aliasIndex_witness:
  "reachable demoEnv demoState2 \<and>
   hd (vertexStorage demoState2) \<in> set (vertexStorage demoState2) \<and>
   map ee_deleted (elems (e_aliases (hd (vertexStorage demoState2)))) = [Some 20, None] \<and>
   e_aliasIndex (hd (vertexStorage demoState2)) = Some ''foo||b''"
proof -
  have m: "hd (vertexStorage demoState2) \<in> set (vertexStorage demoState2)"
    by code_simp
  have d: "map ee_deleted (elems (e_aliases (hd (vertexStorage demoState2)))) = [Some 20, None]"
    by code_simp
  have r: "(case e_aliases (hd (vertexStorage demoState2)) of None \<Rightarrow> None
      | Some xs \<Rightarrow> Some (toLowerCase (join ''||'' (map ee_id xs)))) = Some ''foo||b''"
    by code_simp
  from C6_aliasIndex [OF demo_reachable2 m] r
  have "e_aliasIndex (hd (vertexStorage demoState2)) = Some ''foo||b''" by simp
  with demo_reachable2 m d show ?thesis by simp
qed

section \<open>Reading a vertex\<close>

lemma get_Inr:
  assumes "get env i options st = Inr r"
  shows "\<exists>vid e.
     i \<noteq> [] \<and> urnFromValidString env i = Inr (NAMESPACE, vid) \<and>
     storageGet (vertexStorage st) vid = Some e \<and>
     ((case options of None \<Rightarrow> None | Some opts \<Rightarrow> verifySignatureDepth opts) \<in>
        {Some DepthCurrent, Some DepthAll} \<longrightarrow>
      (\<exists>vf ver. verifyChangesets env (immutableStorage st) (vertexEntityToModel e)
         (the (case options of None \<Rightarrow> None | Some opts \<Rightarrow> verifySignatureDepth opts)) =
           Inr (vf, ver) \<and> verified r = Some vf \<and> verification r = Some ver)) \<and>
     ((case options of None \<Rightarrow> None | Some opts \<Rightarrow> verifySignatureDepth opts) \<notin>
        {Some DepthCurrent, Some DepthAll} \<longrightarrow> verified r = None \<and> verification r = None) \<and>
     vertex r =
       (let m = vertexEntityToModel e;
            m1 = (if (case options of None \<Rightarrow> None | Some opts \<Rightarrow> includeDeleted opts) = Some True
                  then m
                  else m\<lparr>v_aliases := withoutDeleted (v_aliases m),
                         v_resources := withoutDeleted (v_resources m),
                         v_edges := withoutDeleted (v_edges m)\<rparr>)
        in if (case options of None \<Rightarrow> None | Some opts \<Rightarrow> includeChangesets opts) = Some True
           then m1 else m1\<lparr>v_changesets := None\<rparr>)"
  using assms unfolding get_def Let_def
  by (auto simp: andThen_eq_Inr split: if_splits option.splits)

lemma withoutDeleted_elems:
  "elems (withoutDeleted xs) = filter (\<lambda>a. el_deleted a = None) (elems xs)"
  by (cases xs) (simp_all add: withoutDeleted_def Let_def)

lemma withoutDeleted_nonempty: "xs \<noteq> Some [] \<Longrightarrow> withoutDeleted xs \<noteq> Some []"
  by (cases xs) (simp_all add: withoutDeleted_def Let_def)

lemma entityToModel_aliases:
  "elems (v_aliases (vertexEntityToModel e)) = map aliasEntityToModel (elems (e_aliases e))"
  "v_aliases (vertexEntityToModel e) \<noteq> Some []"
  by (cases "e_aliases e"; simp add: vertexEntityToModel_def)+

lemma entityToModel_resources:
  "elems (v_resources (vertexEntityToModel e)) = map aliasEntityToModel (elems (e_resources e))"
  "v_resources (vertexEntityToModel e) \<noteq> Some []"
  by (cases "e_resources e"; simp add: vertexEntityToModel_def)+

lemma entityToModel_edges:
  "elems (v_edges (vertexEntityToModel e)) = map edgeEntityToModel (elems (e_edges e))"
  "v_edges (vertexEntityToModel e) \<noteq> Some []"
  by (cases "e_edges e"; simp add: vertexEntityToModel_def)+

lemma entityToModel_changesets:
  "elems (v_changesets (vertexEntityToModel e)) = elems (e_changesets e)"
  "v_changesets (vertexEntityToModel e) \<noteq> Some []"
  by (cases "e_changesets e"; simp add: vertexEntityToModel_def)+

lemmas entityToModel_collections =
  entityToModel_aliases entityToModel_resources entityToModel_edges entityToModel_changesets

lemma withoutDeleted_map:
  assumes "\<And>s. el_deleted (f s) = d s"
  shows "withoutDeleted (if arrayValue xs then Some (map f (the xs)) else None) =
     (if filter (\<lambda>s. d s = None) (elems xs) = [] then None
      else Some (map f (filter (\<lambda>s. d s = None) (elems xs))))"
  by (cases xs) (simp_all add: withoutDeleted_def Let_def filter_map comp_def assms)

lemma get_aliases_without_deleted:
  "withoutDeleted (v_aliases (vertexEntityToModel e)) =
     (if filter (\<lambda>s. ee_deleted s = None) (elems (e_aliases e)) = [] then None
      else Some (map (\<lambda>s. \<lparr>el_id = ee_id s, el_created = ee_created s, el_updated = None,
                          el_deleted = None, el_metadataSchema = ee_metadataSchema s,
                          el_metadata = ee_metadata s\<rparr>)
             (filter (\<lambda>s. ee_deleted s = None) (elems (e_aliases e)))))"
proof -
  have "map aliasEntityToModel (filter (\<lambda>s. ee_deleted s = None) xs) =
      map (\<lambda>s. \<lparr>el_id = ee_id s, el_created = ee_created s, el_updated = None,
                el_deleted = None, el_metadataSchema = ee_metadataSchema s,
                el_metadata = ee_metadata s\<rparr>)
        (filter (\<lambda>s. ee_deleted s = None) xs)" for xs
    by (induction xs) (simp_all add: aliasEntityToModel_def)
  moreover have "v_aliases (vertexEntityToModel e) =
      (if arrayValue (e_aliases e) then Some (map aliasEntityToModel (the (e_aliases e)))
       else None)"
    by (simp add: vertexEntityToModel_def)
  ultimately show ?thesis
    using withoutDeleted_map [of aliasEntityToModel ee_deleted "e_aliases e"]
    by (simp add: aliasEntityToModel_def)
qed

lemma get_resources_without_deleted:
  "withoutDeleted (v_resources (vertexEntityToModel e)) =
     (if filter (\<lambda>s. ee_deleted s = None) (elems (e_resources e)) = [] then None
      else Some (map (\<lambda>s. \<lparr>el_id = ee_id s, el_created = ee_created s, el_updated = None,
                          el_deleted = None, el_metadataSchema = ee_metadataSchema s,
                          el_metadata = ee_metadata s\<rparr>)
             (filter (\<lambda>s. ee_deleted s = None) (elems (e_resources e)))))"
proof -
  have "map aliasEntityToModel (filter (\<lambda>s. ee_deleted s = None) xs) =
      map (\<lambda>s. \<lparr>el_id = ee_id s, el_created = ee_created s, el_updated = None,
                el_deleted = None, el_metadataSchema = ee_metadataSchema s,
                el_metadata = ee_metadata s\<rparr>)
        (filter (\<lambda>s. ee_deleted s = None) xs)" for xs
    by (induction xs) (simp_all add: aliasEntityToModel_def)
  moreover have "v_resources (vertexEntityToModel e) =
      (if arrayValue (e_resources e) then Some (map aliasEntityToModel (the (e_resources e)))
       else None)"
    by (simp add: vertexEntityToModel_def)
  ultimately show ?thesis
    using withoutDeleted_map [of aliasEntityToModel ee_deleted "e_resources e"]
    by (simp add: aliasEntityToModel_def)
qed

lemma get_edges_without_deleted:
  "withoutDeleted (v_edges (vertexEntityToModel e)) =
     (if filter (\<lambda>s. ee_deleted s = None) (elems (e_edges e)) = [] then None
      else Some (map (\<lambda>s. \<lparr>el_id = ee_id s, el_created = ee_created s, el_updated = None,
                          el_deleted = None, el_metadataSchema = ee_metadataSchema s,
                          el_metadata = ee_metadata s, el_relationship = ee_relationship s\<rparr>)
             (filter (\<lambda>s. ee_deleted s = None) (elems (e_edges e)))))"
proof -
  have "map edgeEntityToModel (filter (\<lambda>s. ee_deleted s = None) xs) =
      map (\<lambda>s. \<lparr>el_id = ee_id s, el_created = ee_created s, el_updated = None,
                el_deleted = None, el_metadataSchema = ee_metadataSchema s,
                el_metadata = ee_metadata s, el_relationship = ee_relationship s\<rparr>)
        (filter (\<lambda>s. ee_deleted s = None) xs)" for xs
    by (induction xs) (simp_all add: edgeEntityToModel_def)
  moreover have "v_edges (vertexEntityToModel e) =
      (if arrayValue (e_edges e) then Some (map edgeEntityToModel (the (e_edges e)))
       else None)"
    by (simp add: vertexEntityToModel_def)
  ultimately show ?thesis
    using withoutDeleted_map [of edgeEntityToModel ee_deleted "e_edges e"]
    by (simp add: edgeEntityToModel_def)
qed

lemma entityToModel_all:
  "elems (v_aliases (vertexEntityToModel e)) =
     map (\<lambda>s. \<lparr>el_id = ee_id s, el_created = ee_created s, el_updated = None,
               el_deleted = ee_deleted s, el_metadataSchema = ee_metadataSchema s,
               el_metadata = ee_metadata s\<rparr>) (elems (e_aliases e))"
  "elems (v_resources (vertexEntityToModel e)) =
     map (\<lambda>s. \<lparr>el_id = ee_id s, el_created = ee_created s, el_updated = None,
               el_deleted = ee_deleted s, el_metadataSchema = ee_metadataSchema s,
               el_metadata = ee_metadata s\<rparr>) (elems (e_resources e))"
  "elems (v_edges (vertexEntityToModel e)) =
     map (\<lambda>s. \<lparr>el_id = ee_id s, el_created = ee_created s, el_updated = None,
               el_deleted = ee_deleted s, el_metadataSchema = ee_metadataSchema s,
               el_metadata = ee_metadata s, el_relationship = ee_relationship s\<rparr>)
       (elems (e_edges e))"
    apply (cases "e_aliases e"; simp add: vertexEntityToModel_def aliasEntityToModel_def fun_eq_iff)
   apply (cases "e_resources e"; simp add: vertexEntityToModel_def aliasEntityToModel_def fun_eq_iff)
  apply (cases "e_edges e"; simp add: vertexEntityToModel_def edgeEntityToModel_def fun_eq_iff)
  done

text \<open>
  C7: a successful \<^verbatim>\<open>get\<close> read some stored vertex. Unless \<^verbatim>\<open>includeDeleted\<close> is true, each
  collection of the returned vertex holds exactly the stored elements whose stored
  \<^verbatim>\<open>deleted\<close> epoch is not set, in their order and with their stored properties, so every
  stored element with a \<^verbatim>\<open>deleted\<close> epoch is removed; and a collection with no element
  left is dropped. When \<^verbatim>\<open>includeDeleted\<close> is true, every stored element is returned, with
  its \<^verbatim>\<open>deleted\<close> epoch. Unless \<^verbatim>\<open>includeChangesets\<close> is true, the returned vertex has no
  changesets; when it is true, it has the stored ones.
\<close>

theorem C7_get_filters:
  assumes "get env i options st = Inr r"
  shows "\<exists>vid e.
     urnFromValidString env i = Inr (NAMESPACE, vid) \<and>
     storageGet (vertexStorage st) vid = Some e \<and>
     ((case options of None \<Rightarrow> None | Some opts \<Rightarrow> includeDeleted opts) \<noteq> Some True \<longrightarrow>
        v_aliases (vertex r) =
          (if filter (\<lambda>s. ee_deleted s = None) (elems (e_aliases e)) = [] then None
           else Some (map (\<lambda>s. \<lparr>el_id = ee_id s, el_created = ee_created s, el_updated = None,
                               el_deleted = None, el_metadataSchema = ee_metadataSchema s,
                               el_metadata = ee_metadata s\<rparr>)
                  (filter (\<lambda>s. ee_deleted s = None) (elems (e_aliases e))))) \<and>
        v_resources (vertex r) =
          (if filter (\<lambda>s. ee_deleted s = None) (elems (e_resources e)) = [] then None
           else Some (map (\<lambda>s. \<lparr>el_id = ee_id s, el_created = ee_created s, el_updated = None,
                               el_deleted = None, el_metadataSchema = ee_metadataSchema s,
                               el_metadata = ee_metadata s\<rparr>)
                  (filter (\<lambda>s. ee_deleted s = None) (elems (e_resources e))))) \<and>
        v_edges (vertex r) =
          (if filter (\<lambda>s. ee_deleted s = None) (elems (e_edges e)) = [] then None
           else Some (map (\<lambda>s. \<lparr>el_id = ee_id s, el_created = ee_created s, el_updated = None,
                               el_deleted = None, el_metadataSchema = ee_metadataSchema s,
                               el_metadata = ee_metadata s,
                               el_relationship = ee_relationship s\<rparr>)
                  (filter (\<lambda>s. ee_deleted s = None) (elems (e_edges e)))))) \<and>
     ((case options of None \<Rightarrow> None | Some opts \<Rightarrow> includeDeleted opts) = Some True \<longrightarrow>
        elems (v_aliases (vertex r)) =
          map (\<lambda>s. \<lparr>el_id = ee_id s, el_created = ee_created s, el_updated = None,
                    el_deleted = ee_deleted s, el_metadataSchema = ee_metadataSchema s,
                    el_metadata = ee_metadata s\<rparr>) (elems (e_aliases e)) \<and>
        elems (v_resources (vertex r)) =
          map (\<lambda>s. \<lparr>el_id = ee_id s, el_created = ee_created s, el_updated = None,
                    el_deleted = ee_deleted s, el_metadataSchema = ee_metadataSchema s,
                    el_metadata = ee_metadata s\<rparr>) (elems (e_resources e)) \<and>
        elems (v_edges (vertex r)) =
          map (\<lambda>s. \<lparr>el_id = ee_id s, el_created = ee_created s, el_updated = None,
                    el_deleted = ee_deleted s, el_metadataSchema = ee_metadataSchema s,
                    el_metadata = ee_metadata s, el_relationship = ee_relationship s\<rparr>)
            (elems (e_edges e))) \<and>
     ((case options of None \<Rightarrow> None | Some opts \<Rightarrow> includeChangesets opts) \<noteq> Some True \<longrightarrow>
        v_changesets (vertex r) = None) \<and>
     ((case options of None \<Rightarrow> None | Some opts \<Rightarrow> includeChangesets opts) = Some True \<longrightarrow>
        elems (v_changesets (vertex r)) = elems (e_changesets e))"
proof -
  from get_Inr [OF assms] obtain vid e where
    u: "urnFromValidString env i = Inr (NAMESPACE, vid)" and
    g: "storageGet (vertexStorage st) vid = Some e" and
    v: "vertex r =
       (let m = vertexEntityToModel e;
            m1 = (if (case options of None \<Rightarrow> None | Some opts \<Rightarrow> includeDeleted opts) = Some True
                  then m
                  else m\<lparr>v_aliases := withoutDeleted (v_aliases m),
                         v_resources := withoutDeleted (v_resources m),
                         v_edges := withoutDeleted (v_edges m)\<rparr>)
        in if (case options of None \<Rightarrow> None | Some opts \<Rightarrow> includeChangesets opts) = Some True
           then m1 else m1\<lparr>v_changesets := None\<rparr>)"
    by blast
  have d: "(case options of None \<Rightarrow> None | Some opts \<Rightarrow> includeDeleted opts) \<noteq> Some True \<Longrightarrow>
    v_aliases (vertex r) = withoutDeleted (v_aliases (vertexEntityToModel e)) \<and>
    v_resources (vertex r) = withoutDeleted (v_resources (vertexEntityToModel e)) \<and>
    v_edges (vertex r) = withoutDeleted (v_edges (vertexEntityToModel e))"
    using v by (simp add: Let_def)
  have a: "(case options of None \<Rightarrow> None | Some opts \<Rightarrow> includeDeleted opts) = Some True \<Longrightarrow>
    v_aliases (vertex r) = v_aliases (vertexEntityToModel e) \<and>
    v_resources (vertex r) = v_resources (vertexEntityToModel e) \<and>
    v_edges (vertex r) = v_edges (vertexEntityToModel e)"
    using v by (simp add: Let_def)
  have c: "(case options of None \<Rightarrow> None | Some opts \<Rightarrow> includeChangesets opts) \<noteq> Some True \<Longrightarrow>
    v_changesets (vertex r) = None"
    using v by (simp add: Let_def)
  have k: "(case options of None \<Rightarrow> None | Some opts \<Rightarrow> includeChangesets opts) = Some True \<Longrightarrow>
    elems (v_changesets (vertex r)) = elems (e_changesets e)"
    using v by (simp add: Let_def entityToModel_changesets split: if_splits)
  note d1 = d [THEN conjunct1, unfolded get_aliases_without_deleted]
  note d2 = d [THEN conjunct2, THEN conjunct1, unfolded get_resources_without_deleted]
  note d3 = d [THEN conjunct2, THEN conjunct2, unfolded get_edges_without_deleted]
  have a1: "(case options of None \<Rightarrow> None | Some opts \<Rightarrow> includeDeleted opts) = Some True \<Longrightarrow>
    elems (v_aliases (vertex r)) = elems (v_aliases (vertexEntityToModel e))"
    and a2: "(case options of None \<Rightarrow> None | Some opts \<Rightarrow> includeDeleted opts) = Some True \<Longrightarrow>
    elems (v_resources (vertex r)) = elems (v_resources (vertexEntityToModel e))"
    and a3: "(case options of None \<Rightarrow> None | Some opts \<Rightarrow> includeDeleted opts) = Some True \<Longrightarrow>
    elems (v_edges (vertex r)) = elems (v_edges (vertexEntityToModel e))"
    using a by simp_all
  show ?thesis
    apply (rule exI [of _ vid], rule exI [of _ e])
    apply (intro conjI impI)
             apply (rule u)
            apply (rule g)
           apply (erule d1)
          apply (erule d2)
         apply (erule d3)
        apply (erule a1 [unfolded entityToModel_all])
       apply (erule a2 [unfolded entityToModel_all])
      apply (erule a3 [unfolded entityToModel_all])
     apply (erule c)
    apply (erule k)
    done
qed

lemma demo_tombstones_target:
  "storageGet (vertexStorage demoTombstones) ''01'' = Some (hd (vertexStorage demoTombstones))"
  by code_simp

theorem C7_get_filters_witness:
  "get demoEnv ''aig:01'' None demoTombstones =
     Inr (projr (get demoEnv ''aig:01'' None demoTombstones)) \<and>
   map (\<lambda>s. (ee_id s, ee_deleted s)) (elems (e_aliases (hd (vertexStorage demoTombstones)))) =
     [(''Foo'', Some 20), (''b'', None)] \<and>
   map (\<lambda>s. (ee_id s, ee_deleted s)) (elems (e_resources (hd (vertexStorage demoTombstones)))) =
     [(''r'', Some 20)] \<and>
   map (\<lambda>s. (ee_id s, ee_deleted s)) (elems (e_edges (hd (vertexStorage demoTombstones)))) =
     [(''x'', Some 20), (''y'', None)] \<and>
   map_option (map el_id) (v_aliases (vertex (projr (get demoEnv ''aig:01'' None demoTombstones)))) =
     Some [''b''] \<and>
   v_resources (vertex (projr (get demoEnv ''aig:01'' None demoTombstones))) = None \<and>
   map_option (map el_id) (v_edges (vertex (projr (get demoEnv ''aig:01'' None demoTombstones)))) =
     Some [''y''] \<and>
   v_changesets (vertex (projr (get demoEnv ''aig:01'' None demoTombstones))) = None"
proof -
  have g: "get demoEnv ''aig:01'' None demoTombstones =
      Inr (projr (get demoEnv ''aig:01'' None demoTombstones))"
    by code_simp
  have s: "map (\<lambda>s. (ee_id s, ee_deleted s)) (elems (e_aliases (hd (vertexStorage demoTombstones)))) =
     [(''Foo'', Some 20), (''b'', None)]"
    "map (\<lambda>s. (ee_id s, ee_deleted s)) (elems (e_resources (hd (vertexStorage demoTombstones)))) =
     [(''r'', Some 20)]"
    "map (\<lambda>s. (ee_id s, ee_deleted s)) (elems (e_edges (hd (vertexStorage demoTombstones)))) =
     [(''x'', Some 20), (''y'', None)]"
    by (simp_all add: demoTombstones_def demoState2_def demoEntity_def demoAlias_def demoEdge_def)
  have f: "filter (\<lambda>s. ee_deleted s = None) (elems (e_aliases (hd (vertexStorage demoTombstones)))) =
      [demoAlias ''b'' 10 None]"
    "filter (\<lambda>s. ee_deleted s = None) (elems (e_resources (hd (vertexStorage demoTombstones)))) = []"
    "filter (\<lambda>s. ee_deleted s = None) (elems (e_edges (hd (vertexStorage demoTombstones)))) =
      [demoEdge ''y'' 10 None]"
    by (simp_all add: demoTombstones_def demoState2_def demoEntity_def demoAlias_def demoEdge_def)
  from C7_get_filters [OF g] demo_urn demo_tombstones_target
  have "map_option (map el_id)
      (v_aliases (vertex (projr (get demoEnv ''aig:01'' None demoTombstones)))) = Some [''b''] \<and>
   v_resources (vertex (projr (get demoEnv ''aig:01'' None demoTombstones))) = None \<and>
   map_option (map el_id)
      (v_edges (vertex (projr (get demoEnv ''aig:01'' None demoTombstones)))) = Some [''y''] \<and>
   v_changesets (vertex (projr (get demoEnv ''aig:01'' None demoTombstones))) = None"
    by (auto simp: f demoAlias_def demoEdge_def)
  with g s show ?thesis by simp
qed

section \<open>Verification of the changesets\<close>

lemma hashInput_specDigest:
  "blake2b256 env (hashInput env lastHash (cs_created c) (cs_userIdentity c) (cs_patches c)) =
   specDigest env (elems lastHash) c"
  by (cases lastHash) (simp_all add: hashInput_def specDigest_def)

lemma checkCredential_failure:
  assumes "checkCredential env imm v c sig = Inr cc"
  shows "cc_failure cc \<noteq> Some ''invalidChangesetHash''"
  using assms unfolding checkCredential_def Let_def
  by (auto simp: andThen_eq_Inr split: if_splits)

text \<open>What one iteration of the verification loop returns.\<close>

lemma verifyChangeset_Inr:
  assumes "verifyChangeset env imm v depth n i lastHash vf c = Inr (entry, vf', h)"
  shows "h = specDigest env (elems lastHash) c"
    and "ve_created entry = cs_created c"
    and "ve_patches entry = cs_patches c"
    and "ve_failure entry = Some ''invalidChangesetHash'' \<longleftrightarrow>
           bytesToBase64 env (specDigest env (elems lastHash) c) \<noteq> cs_hash c"
    and "bytesToBase64 env (specDigest env (elems lastHash) c) \<noteq> cs_hash c \<Longrightarrow>
           vf' = vf \<and> ve_failureProperties entry = None"
    and "\<not> stringValue (cs_immutableStorageId c) \<Longrightarrow>
           vf' = vf \<and>
           ve_failure entry =
             (if bytesToBase64 env (specDigest env (elems lastHash) c) \<noteq> cs_hash c
              then Some ''invalidChangesetHash'' else None)"
  using assms checkCredential_failure [of env imm v c]
  unfolding verifyChangeset_def Let_def hashInput_specDigest
  by (auto simp: andThen_eq_Inr split: if_splits)


lemma verifyLoop_Inr:
  assumes "verifyLoop env imm v depth n i lastHash vf acc cs = Inr (vf', ver)"
  shows "\<exists>entries. ver = acc @ entries \<and> length entries = length cs \<and>
     (\<forall>j < length cs.
        ve_created (entries ! j) = cs_created (cs ! j) \<and>
        ve_patches (entries ! j) = cs_patches (cs ! j) \<and>
        (ve_failure (entries ! j) = Some ''invalidChangesetHash'' \<longleftrightarrow>
           bytesToBase64 env (digests env (elems lastHash) cs ! j) \<noteq> cs_hash (cs ! j)))"
  using assms
proof (induction cs arbitrary: i lastHash vf acc)
  case Nil
  then show ?case by simp
next
  case (Cons c cs)
  from Cons.prems obtain entry vf1 h where
    step: "verifyChangeset env imm v depth n i lastHash vf c = Inr (entry, vf1, h)" and
    rest: "verifyLoop env imm v depth n (i + 1) (Some h) vf1 (acc @ [entry]) cs = Inr (vf', ver)"
    by (auto split: sum.splits)
  note st = verifyChangeset_Inr [OF step]
  from Cons.IH [OF rest] obtain entries where
    e: "ver = (acc @ [entry]) @ entries" "length entries = length cs" and
    a: "\<forall>j < length cs.
        ve_created (entries ! j) = cs_created (cs ! j) \<and>
        ve_patches (entries ! j) = cs_patches (cs ! j) \<and>
        (ve_failure (entries ! j) = Some ''invalidChangesetHash'' \<longleftrightarrow>
           bytesToBase64 env (digests env (elems (Some h)) cs ! j) \<noteq> cs_hash (cs ! j))"
    by blast
  have "\<forall>j < length (c # cs).
        ve_created ((entry # entries) ! j) = cs_created ((c # cs) ! j) \<and>
        ve_patches ((entry # entries) ! j) = cs_patches ((c # cs) ! j) \<and>
        (ve_failure ((entry # entries) ! j) = Some ''invalidChangesetHash'' \<longleftrightarrow>
           bytesToBase64 env (digests env (elems lastHash) (c # cs) ! j) \<noteq>
             cs_hash ((c # cs) ! j))"
  proof (intro allI impI)
    fix j assume "j < length (c # cs)"
    then show "ve_created ((entry # entries) ! j) = cs_created ((c # cs) ! j) \<and>
        ve_patches ((entry # entries) ! j) = cs_patches ((c # cs) ! j) \<and>
        (ve_failure ((entry # entries) ! j) = Some ''invalidChangesetHash'' \<longleftrightarrow>
           bytesToBase64 env (digests env (elems lastHash) (c # cs) ! j) \<noteq>
             cs_hash ((c # cs) ! j))"
      using st(1-4) a by (cases j) simp_all
  qed
  with e show ?case by (intro exI [of _ "entry # entries"]) simp
qed




text \<open>The digests do not depend on the stored hashes; a chain is a list whose hashes are
  the base64 of its digests.\<close>

lemma specDigest_hash [simp]: "specDigest env prev (c\<lparr>cs_hash := h\<rparr>) = specDigest env prev c"
  by (simp add: specDigest_def)

lemma digests_length [simp]: "length (digests env prev cs) = length cs"
  by (induction cs arbitrary: prev) simp_all

lemma digests_update_hash:
  "digests env prev (cs[i := (cs ! i)\<lparr>cs_hash := h\<rparr>]) = digests env prev cs"
proof (induction cs arbitrary: prev i)
  case Nil
  then show ?case by simp
next
  case (Cons c cs)
  then show ?case by (cases i) simp_all
qed

lemma specChain_digests:
  "specChain env prev cs \<longleftrightarrow>
     (\<forall>j < length cs. cs_hash (cs ! j) = bytesToBase64 env (digests env prev cs ! j))"
proof (induction cs arbitrary: prev)
  case Nil
  then show ?case by simp
next
  case (Cons c cs)
  show ?case
  proof
    assume "specChain env prev (c # cs)"
    then have h: "cs_hash c = bytesToBase64 env (specDigest env prev c)"
      and r: "\<forall>j < length cs. cs_hash (cs ! j) =
                bytesToBase64 env (digests env (specDigest env prev c) cs ! j)"
      using Cons.IH by simp_all
    show "\<forall>j < length (c # cs). cs_hash ((c # cs) ! j) =
            bytesToBase64 env (digests env prev (c # cs) ! j)"
    proof (intro allI impI)
      fix j assume "j < length (c # cs)"
      then show "cs_hash ((c # cs) ! j) = bytesToBase64 env (digests env prev (c # cs) ! j)"
        using h r by (cases j) simp_all
    qed
  next
    assume a: "\<forall>j < length (c # cs). cs_hash ((c # cs) ! j) =
            bytesToBase64 env (digests env prev (c # cs) ! j)"
    from a [rule_format, of 0] have h: "cs_hash c = bytesToBase64 env (specDigest env prev c)"
      by simp
    have "\<forall>j < length cs. cs_hash (cs ! j) =
                bytesToBase64 env (digests env (specDigest env prev c) cs ! j)"
    proof (intro allI impI)
      fix j assume "j < length cs"
      with a [rule_format, of "Suc j"]
      show "cs_hash (cs ! j) = bytesToBase64 env (digests env (specDigest env prev c) cs ! j)"
        by simp
    qed
    with h Cons.IH show "specChain env prev (c # cs)" by simp
  qed
qed

lemma detach_fields [simp]:
  "\<not> stringValue (cs_immutableStorageId (detach c))"
  "cs_created (detach c) = cs_created c"
  "cs_userIdentity (detach c) = cs_userIdentity c"
  "cs_patches (detach c) = cs_patches c"
  "cs_hash (detach c) = cs_hash c"
  by (simp_all add: detach_def)

lemma specDigest_detach [simp]: "specDigest env prev (detach c) = specDigest env prev c"
  by (simp add: specDigest_def)

lemma specChain_detach [simp]: "specChain env prev (map detach cs) = specChain env prev cs"
  by (induction cs arbitrary: prev) simp_all


text \<open>The loop of \<^verbatim>\<open>removeImmutable\<close>.\<close>

lemma removeImmutable_loop:
  assumes "forEach (removeImmutableStep env node) (imm, hc, acc) cs = Inr (imm', hc', out)"
  shows "out = acc @ map detach cs \<and>
     (hc' \<longleftrightarrow> hc \<or> (\<exists>c \<in> set cs. stringValue (cs_immutableStorageId c))) \<and>
     forEach (\<lambda>m k. immutableRemove env m node k) imm
       (map (\<lambda>c. the (cs_immutableStorageId c))
          (filter (\<lambda>c. stringValue (cs_immutableStorageId c)) cs)) = Inr imm'"
  using assms
proof (induction cs arbitrary: imm hc acc)
  case Nil
  then show ?case by simp
next
  case (Cons c cs)
  show ?case
  proof (cases "stringValue (cs_immutableStorageId c)")
    case True
    then have step: "removeImmutableStep env node (imm, hc, acc) c =
        andThen (immutableRemove env imm node (the (cs_immutableStorageId c)))
          (\<lambda>imm'. Inr (imm', True, acc @ [c\<lparr>cs_immutableStorageId := None\<rparr>]))"
      by (simp add: removeImmutableStep_def)
    from Cons.prems obtain s1 where
      s1: "removeImmutableStep env node (imm, hc, acc) c = Inr s1" and
      r1: "forEach (removeImmutableStep env node) s1 cs = Inr (imm', hc', out)"
      by (auto split: sum.splits)
    from s1 step obtain m where
      m: "immutableRemove env imm node (the (cs_immutableStorageId c)) = Inr m" and
      "s1 = (m, True, acc @ [c\<lparr>cs_immutableStorageId := None\<rparr>])"
      by (auto simp: andThen_eq_Inr)
    with r1 have
      r: "forEach (removeImmutableStep env node)
            (m, True, acc @ [c\<lparr>cs_immutableStorageId := None\<rparr>]) cs = Inr (imm', hc', out)"
      by simp
    from Cons.IH [OF r] True m show ?thesis by (simp add: detach_def)
  next
    case False
    then have step: "removeImmutableStep env node (imm, hc, acc) c = Inr (imm, hc, acc @ [c])"
      by (simp add: removeImmutableStep_def)
    with Cons.prems have
      r: "forEach (removeImmutableStep env node) (imm, hc, acc @ [c]) cs = Inr (imm', hc', out)"
      by simp
    from Cons.IH [OF r] False show ?thesis by (simp add: detach_def)
  qed
qed





text \<open>
  C10: the loop of \<^verbatim>\<open>verifyChangesets\<close> chains each digest to the digest it recomputed for
  the changeset before, never to a stored hash. So when the changesets of a vertex form a
  hash chain and only the stored hash of changeset \<open>i\<close> is then altered, a verification
  that returns reports one entry per changeset, the entry of changeset \<open>i\<close> fails with
  \<^verbatim>\<open>invalidChangesetHash\<close>, and no other entry does.
\<close>

theorem C10_recomputed_chain_link:
  assumes chain: "specChain env [] cs"
    and i: "i < length cs"
    and h: "h \<noteq> cs_hash (cs ! i)"
    and v: "v_changesets v = Some (cs[i := (cs ! i)\<lparr>cs_hash := h\<rparr>])"
    and r: "verifyChangesets env imm v depth = Inr (vf, ver)"
  shows "length ver = length cs \<and>
     ve_failure (ver ! i) = Some ''invalidChangesetHash'' \<and>
     (\<forall>j < length cs. j \<noteq> i \<longrightarrow> ve_failure (ver ! j) \<noteq> Some ''invalidChangesetHash'')"
proof -
  let ?cs = "cs[i := (cs ! i)\<lparr>cs_hash := h\<rparr>]"
  from i have ne: "?cs \<noteq> []" by auto
  from r v ne have
    "verifyLoop env imm v depth (length ?cs) 0 None True [] ?cs = Inr (vf, ver)"
    by (simp add: verifyChangesets_def)
  from verifyLoop_Inr [OF this] have len: "length ver = length cs" and
    f: "\<forall>j < length cs.
        (ve_failure (ver ! j) = Some ''invalidChangesetHash'' \<longleftrightarrow>
           bytesToBase64 env (digests env [] ?cs ! j) \<noteq> cs_hash (?cs ! j))"
    by auto
  from chain have c: "\<forall>j < length cs. cs_hash (cs ! j) = bytesToBase64 env (digests env [] cs ! j)"
    by (simp add: specChain_digests)
  have "ve_failure (ver ! i) = Some ''invalidChangesetHash''"
    using f [rule_format, OF i] c [rule_format, OF i] h i
    by (simp add: digests_update_hash)
  moreover have "\<forall>j < length cs. j \<noteq> i \<longrightarrow> ve_failure (ver ! j) \<noteq> Some ''invalidChangesetHash''"
  proof (intro allI impI)
    fix j assume j: "j < length cs" "j \<noteq> i"
    then show "ve_failure (ver ! j) \<noteq> Some ''invalidChangesetHash''"
      using f [rule_format, of j] c [rule_format, of j]
      by (simp add: digests_update_hash)
  qed
  ultimately show ?thesis using len by simp
qed

theorem C10_recomputed_chain_link_witness:
  "specChain demoEnv [] demoChangesets \<and> 1 < length demoChangesets \<and>
   ''XX'' \<noteq> cs_hash (demoChangesets ! 1) \<and>
   verifyChangesets demoEnv (immutableStorage demoState3) demoHashAltered DepthAll =
     Inr (projr (verifyChangesets demoEnv (immutableStorage demoState3) demoHashAltered DepthAll)) \<and>
   map ve_failure
     (snd (projr (verifyChangesets demoEnv (immutableStorage demoState3) demoHashAltered DepthAll))) =
     [None, Some ''invalidChangesetHash'', None]"
proof -
  have c: "specChain demoEnv [] demoChangesets" by code_simp
  have i: "1 < length demoChangesets" by (simp add: demoChangesets_def)
  have h: "''XX'' \<noteq> cs_hash (demoChangesets ! 1)"
    by (simp add: demoChangesets_def demoChangeset_def)
  have v: "v_changesets demoHashAltered =
      Some (demoChangesets[1 := (demoChangesets ! 1)\<lparr>cs_hash := ''XX''\<rparr>])"
    by (simp add: demoHashAltered_def)
  have r: "verifyChangesets demoEnv (immutableStorage demoState3) demoHashAltered DepthAll =
     Inr (fst (projr (verifyChangesets demoEnv (immutableStorage demoState3) demoHashAltered DepthAll)),
          snd (projr (verifyChangesets demoEnv (immutableStorage demoState3) demoHashAltered DepthAll)))"
    by code_simp
  have e: "map ve_failure
     (snd (projr (verifyChangesets demoEnv (immutableStorage demoState3) demoHashAltered DepthAll))) =
     [None, Some ''invalidChangesetHash'', None]"
    by code_simp
  from C10_recomputed_chain_link [OF c i h v r]
  have "length (snd (projr (verifyChangesets demoEnv (immutableStorage demoState3)
      demoHashAltered DepthAll))) = length demoChangesets"
    by simp
  with c i h r e show ?thesis by simp
qed

text \<open>
  A failed hash check leaves the aggregate flag as it was, in every environment: when
  every changeset of the loop fails the check, the loop returns the flag it started with.
\<close>

lemma verifyLoop_hash_failures_keep_flag:
  assumes "verifyLoop env imm v depth n i lastHash vf acc cs = Inr (vf', ver)"
    and "\<forall>j < length cs.
           bytesToBase64 env (digests env (elems lastHash) cs ! j) \<noteq> cs_hash (cs ! j)"
  shows "vf' = vf"
  using assms
proof (induction cs arbitrary: i lastHash vf acc)
  case Nil
  then show ?case by simp
next
  case (Cons c cs)
  from Cons.prems(1) obtain entry vf1 h where
    step: "verifyChangeset env imm v depth n i lastHash vf c = Inr (entry, vf1, h)" and
    rest: "verifyLoop env imm v depth n (i + 1) (Some h) vf1 (acc @ [entry]) cs = Inr (vf', ver)"
    by (auto split: sum.splits)
  from Cons.prems(2) [rule_format, of 0]
  have m: "bytesToBase64 env (specDigest env (elems lastHash) c) \<noteq> cs_hash c" by simp
  note st = verifyChangeset_Inr(1) [OF step] verifyChangeset_Inr(5) [OF step m]
  have "\<forall>j < length cs.
           bytesToBase64 env (digests env (elems (Some h)) cs ! j) \<noteq> cs_hash (cs ! j)"
  proof (intro allI impI)
    fix j assume "j < length cs"
    with Cons.prems(2) [rule_format, of "Suc j"] st(1)
    show "bytesToBase64 env (digests env (elems (Some h)) cs ! j) \<noteq> cs_hash (cs ! j)"
      by simp
  qed
  from Cons.IH [OF rest this] st show ?case by simp
qed

text \<open>
  C1, evaluated at the failing input: the vertex of the first concrete state, with the
  path of its stored patch altered, is read with \<^verbatim>\<open>verifySignatureDepth\<close> \<^verbatim>\<open>all\<close>. The
  entry of the changeset records \<^verbatim>\<open>invalidChangesetHash\<close>, and the aggregate flag of the
  result is \<^verbatim>\<open>true\<close>.
\<close>

theorem C1_tampered_patch_leaves_verified_true:
  "map_sum id (\<lambda>r. (verified r, map_option (map ve_failure) (verification r)))
     (get demoEnv ''aig:01'' demoVerifyAll demoTamperedPatch) =
   Inr (Some True, Some [Some ''invalidChangesetHash''])"
  by code_simp

section \<open>Removing the immutable storage\<close>







section \<open>Appending a changeset\<close>

lemma forEach_preserves:
  assumes "forEach body s xs = Inr s'"
    and "\<And>a x b. body a x = Inr b \<Longrightarrow> f b = f a"
  shows "f s' = f s"
  using assms(1)
proof (induction xs arbitrary: s)
  case Nil
  then show ?case by simp
next
  case (Cons x xs)
  then obtain s1 where "body s x = Inr s1" "forEach body s1 xs = Inr s'"
    by (auto split: sum.splits)
  with Cons.IH assms(2) show ?case by metis
qed

lemma updateAlias_frame:
  "updateAlias env ctx v u = Inr v' \<Longrightarrow> v'\<lparr>v_aliases := None\<rparr> = v\<lparr>v_aliases := None\<rparr>"
  unfolding updateAlias_def Let_def by (auto split: if_splits)

lemma updateResource_frame:
  "updateResource env ctx v u = Inr v' \<Longrightarrow> v'\<lparr>v_resources := None\<rparr> = v\<lparr>v_resources := None\<rparr>"
  unfolding updateResource_def Let_def by (auto split: if_splits)

lemma updateEdge_frame:
  "updateEdge env ctx v u = Inr v' \<Longrightarrow> v'\<lparr>v_edges := None\<rparr> = v\<lparr>v_edges := None\<rparr>"
  unfolding updateEdge_def Let_def by (auto split: if_splits)

lemma updateAliasList_frame:
  assumes "updateAliasList env ctx v us = Inr v'"
  shows "v'\<lparr>v_aliases := None\<rparr> = v\<lparr>v_aliases := None\<rparr>"
proof (cases "arrayValue us")
  case True
  with assms have "forEach (updateAlias env ctx)
    (v\<lparr>v_aliases := map_option (map (\<lambda>alias.
        if el_deleted alias = None \<and> \<not> inUpdateList (el_id alias) us
        then alias\<lparr>el_deleted := Some (now ctx)\<rparr> else alias)) (v_aliases v)\<rparr>) (the us) = Inr v'"
    by (simp add: updateAliasList_def)
  from forEach_preserves [OF this, of "\<lambda>v. v\<lparr>v_aliases := None\<rparr>", OF updateAlias_frame]
  show ?thesis by simp
next
  case False
  with assms show ?thesis by (auto simp: updateAliasList_def)
qed

lemma updateResourceList_frame:
  assumes "updateResourceList env ctx v us = Inr v'"
  shows "v'\<lparr>v_resources := None\<rparr> = v\<lparr>v_resources := None\<rparr>"
proof (cases "arrayValue us")
  case True
  with assms have "forEach (updateResource env ctx)
    (v\<lparr>v_resources := map_option (map (\<lambda>resource.
        if el_deleted resource = None \<and> \<not> inUpdateList (el_id resource) us
        then resource\<lparr>el_deleted := Some (now ctx)\<rparr> else resource)) (v_resources v)\<rparr>)
      (the us) = Inr v'"
    by (simp add: updateResourceList_def)
  from forEach_preserves [OF this, of "\<lambda>v. v\<lparr>v_resources := None\<rparr>", OF updateResource_frame]
  show ?thesis by simp
next
  case False
  with assms show ?thesis by (auto simp: updateResourceList_def)
qed

lemma updateEdgeList_frame:
  assumes "updateEdgeList env ctx v us = Inr v'"
  shows "v'\<lparr>v_edges := None\<rparr> = v\<lparr>v_edges := None\<rparr>"
proof (cases "arrayValue us")
  case True
  with assms have "forEach (updateEdge env ctx)
    (v\<lparr>v_edges := map_option (map (\<lambda>edge.
        if el_deleted edge = None \<and> \<not> inUpdateList (el_id edge) us
        then edge\<lparr>el_deleted := Some (now ctx)\<rparr> else edge)) (v_edges v)\<rparr>) (the us) = Inr v'"
    by (simp add: updateEdgeList_def)
  from forEach_preserves [OF this, of "\<lambda>v. v\<lparr>v_edges := None\<rparr>", OF updateEdge_frame]
  show ?thesis by simp
next
  case False
  with assms show ?thesis by (auto simp: updateEdgeList_def)
qed

lemma reconcile_Inr:
  assumes "reconcile env ctx v as rs es = Inr vm"
  shows "\<exists>v1 v2. updateAliasList env ctx v as = Inr v1 \<and>
     updateResourceList env ctx v1 rs = Inr v2 \<and> updateEdgeList env ctx v2 es = Inr vm"
  using assms unfolding reconcile_def by (auto simp: andThen_eq_Inr)

text \<open>The reconcilers change the three collections and nothing else.\<close>

lemma reconcile_frame:
  assumes "reconcile env ctx v as rs es = Inr vm"
  shows "v_id vm = v_id v" "v_nodeIdentity vm = v_nodeIdentity v" "v_created vm = v_created v"
    "v_updated vm = v_updated v" "v_metadataSchema vm = v_metadataSchema v"
    "v_metadata vm = v_metadata v" "v_changesets vm = v_changesets v"
proof -
  from reconcile_Inr [OF assms] obtain v1 v2 where
    "updateAliasList env ctx v as = Inr v1" "updateResourceList env ctx v1 rs = Inr v2"
    "updateEdgeList env ctx v2 es = Inr vm" by blast
  then have a: "v1\<lparr>v_aliases := None\<rparr> = v\<lparr>v_aliases := None\<rparr>"
    and b: "v2\<lparr>v_resources := None\<rparr> = v1\<lparr>v_resources := None\<rparr>"
    and c: "vm\<lparr>v_edges := None\<rparr> = v2\<lparr>v_edges := None\<rparr>"
    using updateAliasList_frame updateResourceList_frame updateEdgeList_frame by blast+
  have "v_id vm = v_id (vm\<lparr>v_edges := None\<rparr>)" by simp
  also have "\<dots> = v_id (v2\<lparr>v_resources := None\<rparr>)" unfolding c by simp
  also have "\<dots> = v_id (v1\<lparr>v_aliases := None\<rparr>)" unfolding b by simp
  also have "\<dots> = v_id v" unfolding a by simp
  finally show "v_id vm = v_id v" .
  have "v_nodeIdentity vm = v_nodeIdentity (vm\<lparr>v_edges := None\<rparr>)" by simp
  also have "\<dots> = v_nodeIdentity (v2\<lparr>v_resources := None\<rparr>)" unfolding c by simp
  also have "\<dots> = v_nodeIdentity (v1\<lparr>v_aliases := None\<rparr>)" unfolding b by simp
  also have "\<dots> = v_nodeIdentity v" unfolding a by simp
  finally show "v_nodeIdentity vm = v_nodeIdentity v" .
  have "v_created vm = v_created (vm\<lparr>v_edges := None\<rparr>)" by simp
  also have "\<dots> = v_created (v2\<lparr>v_resources := None\<rparr>)" unfolding c by simp
  also have "\<dots> = v_created (v1\<lparr>v_aliases := None\<rparr>)" unfolding b by simp
  also have "\<dots> = v_created v" unfolding a by simp
  finally show "v_created vm = v_created v" .
  have "v_updated vm = v_updated (vm\<lparr>v_edges := None\<rparr>)" by simp
  also have "\<dots> = v_updated (v2\<lparr>v_resources := None\<rparr>)" unfolding c by simp
  also have "\<dots> = v_updated (v1\<lparr>v_aliases := None\<rparr>)" unfolding b by simp
  also have "\<dots> = v_updated v" unfolding a by simp
  finally show "v_updated vm = v_updated v" .
  have "v_metadataSchema vm = v_metadataSchema (vm\<lparr>v_edges := None\<rparr>)" by simp
  also have "\<dots> = v_metadataSchema (v2\<lparr>v_resources := None\<rparr>)" unfolding c by simp
  also have "\<dots> = v_metadataSchema (v1\<lparr>v_aliases := None\<rparr>)" unfolding b by simp
  also have "\<dots> = v_metadataSchema v" unfolding a by simp
  finally show "v_metadataSchema vm = v_metadataSchema v" .
  have "v_metadata vm = v_metadata (vm\<lparr>v_edges := None\<rparr>)" by simp
  also have "\<dots> = v_metadata (v2\<lparr>v_resources := None\<rparr>)" unfolding c by simp
  also have "\<dots> = v_metadata (v1\<lparr>v_aliases := None\<rparr>)" unfolding b by simp
  also have "\<dots> = v_metadata v" unfolding a by simp
  finally show "v_metadata vm = v_metadata v" .
  have "v_changesets vm = v_changesets (vm\<lparr>v_edges := None\<rparr>)" by simp
  also have "\<dots> = v_changesets (v2\<lparr>v_resources := None\<rparr>)" unfolding c by simp
  also have "\<dots> = v_changesets (v1\<lparr>v_aliases := None\<rparr>)" unfolding b by simp
  also have "\<dots> = v_changesets v" unfolding a by simp
  finally show "v_changesets vm = v_changesets v" .
qed

text \<open>What \<^verbatim>\<open>addChangeset\<close> returns.\<close>

lemma addChangeset_unchanged:
  assumes "addChangeset env ctx orig upd imm = Inr (changes, upd', imm')"
  shows "changes \<longleftrightarrow> diff env orig upd \<noteq> [] \<or> elems (v_changesets orig) = []"
    and "\<not> changes \<Longrightarrow> upd' = upd \<and> imm' = imm"
  using assms unfolding addChangeset_def Let_def elems_def
  by (auto simp: andThen_eq_Inr split: if_splits)

lemma addChangeset_changed:
  assumes "addChangeset env ctx orig upd imm = Inr (True, upd', imm')"
  shows "\<exists>c sig integ jwt.
     upd' = upd\<lparr>v_changesets := Some (elems (v_changesets orig) @ [c])\<rparr> \<and>
     cs_created c = now ctx \<and> cs_userIdentity c = userIdentity ctx \<and>
     cs_patches c = diff env orig upd \<and>
     cs_hash c = bytesToBase64 env
       (specDigest env
          (if elems (v_changesets orig) = [] then []
           else base64ToBytes env (cs_hash (last (elems (v_changesets orig))))) c) \<and>
     vaultSign env (nodeIdentity ctx @ ''/'' @ vaultKeyId env)
       (specDigest env
          (if elems (v_changesets orig) = [] then []
           else base64ToBytes env (cs_hash (last (elems (v_changesets orig))))) c) = Inr sig \<and>
     createVerifiableCredential env (nodeIdentity ctx)
       (nodeIdentity ctx @ ''#'' @ assertionMethodId env)
       \<lparr>signature = bytesToBase64 env sig, integrity = integ\<rparr> = Inr jwt \<and>
     immutableStore env imm (nodeIdentity ctx) (utf8ToBytes env jwt) =
       Inr (the (cs_immutableStorageId c), imm') \<and>
     cs_immutableStorageId c \<noteq> None"
proof -
  let ?patches = "diff env orig upd"
  let ?prior = "elems (v_changesets orig)"
  let ?prev = "if ?prior = [] then [] else base64ToBytes env (cs_hash (last ?prior))"
  let ?d = "blake2b256 env (hashInput env
                (if ?prior \<noteq> [] then Some (base64ToBytes env (cs_hash (last ?prior)))
                 else None)
                (now ctx) (userIdentity ctx) ?patches)"
  have d: "\<And>h k. ?d = specDigest env ?prev
      \<lparr>cs_created = now ctx, cs_userIdentity = userIdentity ctx, cs_patches = ?patches,
        cs_hash = h, cs_immutableStorageId = k\<rparr>"
    by (simp add: hashInput_def specDigest_def)
  from assms obtain sig integ jwt k where
    s: "vaultSign env (nodeIdentity ctx @ ''/'' @ vaultKeyId env) ?d = Inr sig" and
    j: "createVerifiableCredential env (nodeIdentity ctx)
       (nodeIdentity ctx @ ''#'' @ assertionMethodId env)
       \<lparr>signature = bytesToBase64 env sig, integrity = integ\<rparr> = Inr jwt" and
    st: "immutableStore env imm (nodeIdentity ctx) (utf8ToBytes env jwt) = Inr (k, imm')" and
    u: "upd' = upd\<lparr>v_changesets := Some (?prior @
                   [\<lparr>cs_created = now ctx, cs_userIdentity = userIdentity ctx,
                     cs_patches = ?patches, cs_hash = bytesToBase64 env ?d,
                     cs_immutableStorageId = Some k\<rparr>])\<rparr>"
    unfolding addChangeset_def Let_def elems_def
    by (auto simp: andThen_eq_Inr split: if_splits)
  let ?c = "\<lparr>cs_created = now ctx, cs_userIdentity = userIdentity ctx,
                     cs_patches = ?patches, cs_hash = bytesToBase64 env ?d,
                     cs_immutableStorageId = Some k\<rparr>"
  have "upd' = upd\<lparr>v_changesets := Some (?prior @ [?c])\<rparr> \<and>
     cs_created ?c = now ctx \<and> cs_userIdentity ?c = userIdentity ctx \<and>
     cs_patches ?c = ?patches \<and>
     cs_hash ?c = bytesToBase64 env (specDigest env ?prev ?c) \<and>
     vaultSign env (nodeIdentity ctx @ ''/'' @ vaultKeyId env) (specDigest env ?prev ?c) = Inr sig \<and>
     createVerifiableCredential env (nodeIdentity ctx)
       (nodeIdentity ctx @ ''#'' @ assertionMethodId env)
       \<lparr>signature = bytesToBase64 env sig, integrity = integ\<rparr> = Inr jwt \<and>
     immutableStore env imm (nodeIdentity ctx) (utf8ToBytes env jwt) =
       Inr (the (cs_immutableStorageId ?c), imm') \<and>
     cs_immutableStorageId ?c \<noteq> None"
    using s j st u d [symmetric] by simp
  then show ?thesis by blast
qed

lemma entityToModel_changesets_elems:
  "elems (v_changesets (vertexEntityToModel e)) = elems (e_changesets e)"
  by (cases "e_changesets e") (simp_all add: vertexEntityToModel_def)

lemma modelToEntity_fields [simp]:
  "e_id (vertexModelToEntity v) = v_id v"
  "e_created (vertexModelToEntity v) = v_created v"
  "e_updated (vertexModelToEntity v) = v_updated v"
  "e_nodeIdentity (vertexModelToEntity v) = v_nodeIdentity v"
  "e_metadataSchema (vertexModelToEntity v) = v_metadataSchema v"
  "e_metadata (vertexModelToEntity v) = v_metadata v"
  by (simp_all add: vertexModelToEntity_def)

lemma modelToEntity_changesets:
  "elems (e_changesets (vertexModelToEntity v)) = elems (v_changesets v)"
  by (cases "v_changesets v") (simp_all add: vertexModelToEntity_def)

lemma entityToModel_fields [simp]:
  "v_id (vertexEntityToModel e) = e_id e"
  "v_created (vertexEntityToModel e) = e_created e"
  "v_updated (vertexEntityToModel e) = e_updated e"
  "v_nodeIdentity (vertexEntityToModel e) = e_nodeIdentity e"
  "v_metadataSchema (vertexEntityToModel e) = e_metadataSchema e"
  "v_metadata (vertexEntityToModel e) = e_metadata e"
  by (simp_all add: vertexEntityToModel_def)

lemma changesets_update_eq:
  "v\<lparr>v_changesets := a\<rparr> = v\<lparr>v_changesets := b\<rparr> \<longleftrightarrow> a = b"
proof
  assume "v\<lparr>v_changesets := a\<rparr> = v\<lparr>v_changesets := b\<rparr>"
  then have "v_changesets (v\<lparr>v_changesets := a\<rparr>) = v_changesets (v\<lparr>v_changesets := b\<rparr>)"
    by (rule arg_cong)
  then show "a = b" by simp
qed simp

text \<open>What a successful \<^verbatim>\<open>update\<close> does to the state.\<close>

lemma update_persisted:
  assumes "update env t i ms md as rs es ident node st = Inr st'"
  shows "\<exists>vid e vm.
     urnFromValidString env i = Inr (NAMESPACE, vid) \<and>
     storageGet (vertexStorage st) vid = Some e \<and>
     reconcile env \<lparr>now = t, userIdentity = the ident, nodeIdentity = the node\<rparr>
       ((vertexEntityToModel e)\<lparr>v_metadataSchema := ms, v_metadata := md\<rparr>) as rs es = Inr vm \<and>
     (if diff env (vertexEntityToModel e) vm \<noteq> [] \<or> elems (e_changesets e) = []
      then \<exists>c imm'.
        addChangeset env \<lparr>now = t, userIdentity = the ident, nodeIdentity = the node\<rparr>
          (vertexEntityToModel e) vm (immutableStorage st) =
          Inr (True, vm\<lparr>v_changesets := Some (elems (e_changesets e) @ [c])\<rparr>, imm') \<and>
        st' = \<lparr>vertexStorage =
                 storageSet (vertexModelToEntity
                   (vm\<lparr>v_changesets := Some (elems (e_changesets e) @ [c]), v_updated := t\<rparr>))
                   (vertexStorage st),
               immutableStorage = imm'\<rparr>
      else st' = st)"
proof -
  let ?ctx = "\<lparr>now = t, userIdentity = the ident, nodeIdentity = the node\<rparr>"
  from update_Inr [OF assms] obtain vid e vm changes vm' imm' where
    u: "urnFromValidString env i = Inr (NAMESPACE, vid)" and
    g: "storageGet (vertexStorage st) vid = Some e" and
    r: "reconcile env ?ctx ((vertexEntityToModel e)\<lparr>v_metadataSchema := ms, v_metadata := md\<rparr>)
          as rs es = Inr vm" and
    a: "addChangeset env ?ctx (vertexEntityToModel e) vm (immutableStorage st) =
          Inr (changes, vm', imm')" and
    s: "st' = (if changes
            then \<lparr>vertexStorage =
                    storageSet (vertexModelToEntity (vm'\<lparr>v_updated := t\<rparr>)) (vertexStorage st),
                  immutableStorage = imm'\<rparr>
            else st\<lparr>immutableStorage := imm'\<rparr>)"
    by blast
  note ch = addChangeset_unchanged [OF a, unfolded entityToModel_changesets_elems]
  have "if diff env (vertexEntityToModel e) vm \<noteq> [] \<or> elems (e_changesets e) = []
      then \<exists>c imm'.
        addChangeset env ?ctx (vertexEntityToModel e) vm (immutableStorage st) =
          Inr (True, vm\<lparr>v_changesets := Some (elems (e_changesets e) @ [c])\<rparr>, imm') \<and>
        st' = \<lparr>vertexStorage =
                 storageSet (vertexModelToEntity
                   (vm\<lparr>v_changesets := Some (elems (e_changesets e) @ [c]), v_updated := t\<rparr>))
                   (vertexStorage st),
               immutableStorage = imm'\<rparr>
      else st' = st"
  proof (cases changes)
    case True
    with a have a': "addChangeset env ?ctx (vertexEntityToModel e) vm (immutableStorage st) =
          Inr (True, vm', imm')" by simp
    from addChangeset_changed [OF a']
    obtain c where "vm' = vm\<lparr>v_changesets := Some (elems (e_changesets e) @ [c])\<rparr>"
      unfolding entityToModel_changesets_elems by blast
    with True a' s ch(1) show ?thesis by auto
  next
    case False
    with ch s show ?thesis by simp
  qed
  with u g r show ?thesis by blast
qed

lemma create_persisted:
  assumes "create env t i ms md as rs es ident node st = Inr (urn, st')"
  shows "\<exists>vm c imm'.
     reconcile env \<lparr>now = t, userIdentity = the ident, nodeIdentity = the node\<rparr>
       \<lparr>v_id = i, v_nodeIdentity = the node, v_created = t, v_updated = t,
         v_metadataSchema = ms, v_metadata = md, v_aliases = None, v_resources = None,
         v_edges = None, v_changesets = None\<rparr> as rs es = Inr vm \<and>
     addChangeset env \<lparr>now = t, userIdentity = the ident, nodeIdentity = the node\<rparr>
       \<lparr>v_id = i, v_nodeIdentity = the node, v_created = t, v_updated = t,
         v_metadataSchema = None, v_metadata = None, v_aliases = None, v_resources = None,
         v_edges = None, v_changesets = None\<rparr> vm (immutableStorage st) =
       Inr (True, vm\<lparr>v_changesets := Some [c]\<rparr>, imm') \<and>
     urn = urnToString NAMESPACE i \<and>
     st' = \<lparr>vertexStorage =
              storageSet (vertexModelToEntity (vm\<lparr>v_changesets := Some [c]\<rparr>))
                (vertexStorage st),
            immutableStorage = imm'\<rparr>"
proof -
  let ?ctx = "\<lparr>now = t, userIdentity = the ident, nodeIdentity = the node\<rparr>"
  let ?orig = "\<lparr>v_id = i, v_nodeIdentity = the node, v_created = t, v_updated = t,
         v_metadataSchema = None, v_metadata = None, v_aliases = None, v_resources = None,
         v_edges = None, v_changesets = None\<rparr>"
  from create_Inr [OF assms] obtain vm changes vm' imm' where
    r: "reconcile env ?ctx
       \<lparr>v_id = i, v_nodeIdentity = the node, v_created = t, v_updated = t,
         v_metadataSchema = ms, v_metadata = md, v_aliases = None, v_resources = None,
         v_edges = None, v_changesets = None\<rparr> as rs es = Inr vm" and
    a: "addChangeset env ?ctx ?orig vm (immutableStorage st) = Inr (changes, vm', imm')" and
    n: "urn = urnToString NAMESPACE i" and
    s: "st' = \<lparr>vertexStorage = storageSet (vertexModelToEntity vm') (vertexStorage st),
            immutableStorage = imm'\<rparr>"
    by blast
  from addChangeset_unchanged(1) [OF a] have "changes" by simp
  with a have a': "addChangeset env ?ctx ?orig vm (immutableStorage st) = Inr (True, vm', imm')"
    by simp
  from addChangeset_changed [OF a']
  obtain c where c: "vm' = vm\<lparr>v_changesets := Some [c]\<rparr>" by auto
  from a' c have "addChangeset env ?ctx ?orig vm (immutableStorage st) =
      Inr (True, vm\<lparr>v_changesets := Some [c]\<rparr>, imm')" by simp
  moreover from s c have "st' = \<lparr>vertexStorage =
              storageSet (vertexModelToEntity (vm\<lparr>v_changesets := Some [c]\<rparr>))
                (vertexStorage st),
            immutableStorage = imm'\<rparr>" by simp
  ultimately show ?thesis using r n by blast
qed

text \<open>
  When a changeset is appended: \<^verbatim>\<open>addChangeset\<close> reports changes exactly when the patch
  list is not empty or the original model has no changeset; it then appends one changeset
  with these patches, and otherwise returns the model and the immutable storage as they
  were. A successful \<^verbatim>\<open>create\<close> stores the vertex with exactly one changeset. A successful
  \<^verbatim>\<open>update\<close> whose reconciled model differs from the stored vertex, or whose vertex has
  no changeset, stores the vertex with one more changeset and with \<^verbatim>\<open>updated\<close> set to the
  epoch of the call; every other successful \<^verbatim>\<open>update\<close> leaves the whole state as it was.
\<close>

lemma changeset_appended_iff:
  "(addChangeset env ctx orig upd imm = Inr (changes, upd', imm') \<longrightarrow>
      (changes \<longleftrightarrow> diff env orig upd \<noteq> [] \<or> elems (v_changesets orig) = []) \<and>
      (if changes
       then \<exists>c. v_changesets upd' = Some (elems (v_changesets orig) @ [c]) \<and>
                cs_created c = now ctx \<and> cs_patches c = diff env orig upd
       else upd' = upd \<and> imm' = imm)) \<and>
   (create env t i ms md as rs es ident node st = Inr (urn, st') \<longrightarrow>
      (\<exists>e c. storageGet (vertexStorage st') i = Some e \<and> e_changesets e = Some [c] \<and>
             cs_created c = t)) \<and>
   (update env t i ms md as rs es ident node st = Inr st' \<longrightarrow>
      (\<exists>vid e vm.
         urnFromValidString env i = Inr (NAMESPACE, vid) \<and>
         storageGet (vertexStorage st) vid = Some e \<and>
         reconcile env \<lparr>now = t, userIdentity = the ident, nodeIdentity = the node\<rparr>
           ((vertexEntityToModel e)\<lparr>v_metadataSchema := ms, v_metadata := md\<rparr>) as rs es =
           Inr vm \<and>
         (if diff env (vertexEntityToModel e) vm \<noteq> [] \<or> elems (e_changesets e) = []
          then \<exists>e' c. storageGet (vertexStorage st') vid = Some e' \<and>
                 e_changesets e' = Some (elems (e_changesets e) @ [c]) \<and>
                 cs_created c = t \<and> cs_patches c = diff env (vertexEntityToModel e) vm \<and>
                 e_updated e' = t
          else st' = st)))"
proof (intro conjI impI)
  assume a: "addChangeset env ctx orig upd imm = Inr (changes, upd', imm')"
  show "changes \<longleftrightarrow> diff env orig upd \<noteq> [] \<or> elems (v_changesets orig) = []"
    by (rule addChangeset_unchanged(1) [OF a])
  show "if changes
       then \<exists>c. v_changesets upd' = Some (elems (v_changesets orig) @ [c]) \<and>
                cs_created c = now ctx \<and> cs_patches c = diff env orig upd
       else upd' = upd \<and> imm' = imm"
  proof (cases changes)
    case True
    with a have "addChangeset env ctx orig upd imm = Inr (True, upd', imm')" by simp
    from addChangeset_changed [OF this]
    obtain c where "upd' = upd\<lparr>v_changesets := Some (elems (v_changesets orig) @ [c])\<rparr>"
      "cs_created c = now ctx" "cs_patches c = diff env orig upd"
      by blast
    with True show ?thesis by auto
  next
    case False
    with addChangeset_unchanged(2) [OF a] show ?thesis by simp
  qed
next
  assume "create env t i ms md as rs es ident node st = Inr (urn, st')"
  from create_persisted [OF this] obtain vm c imm' where
    r: "reconcile env \<lparr>now = t, userIdentity = the ident, nodeIdentity = the node\<rparr>
       \<lparr>v_id = i, v_nodeIdentity = the node, v_created = t, v_updated = t,
         v_metadataSchema = ms, v_metadata = md, v_aliases = None, v_resources = None,
         v_edges = None, v_changesets = None\<rparr> as rs es = Inr vm" and
    a: "addChangeset env \<lparr>now = t, userIdentity = the ident, nodeIdentity = the node\<rparr>
       \<lparr>v_id = i, v_nodeIdentity = the node, v_created = t, v_updated = t,
         v_metadataSchema = None, v_metadata = None, v_aliases = None, v_resources = None,
         v_edges = None, v_changesets = None\<rparr> vm (immutableStorage st) =
       Inr (True, vm\<lparr>v_changesets := Some [c]\<rparr>, imm')" and
    s: "st' = \<lparr>vertexStorage =
              storageSet (vertexModelToEntity (vm\<lparr>v_changesets := Some [c]\<rparr>))
                (vertexStorage st),
            immutableStorage = imm'\<rparr>"
    by blast
  from addChangeset_changed [OF a] have t: "cs_created c = t"
    by (auto simp: changesets_update_eq)
  from reconcile_frame(1) [OF r] have "v_id vm = i" by simp
  with s t show "\<exists>e c. storageGet (vertexStorage st') i = Some e \<and> e_changesets e = Some [c] \<and>
             cs_created c = t"
    by (auto simp: storageGet_storageSet vertexModelToEntity_def)
next
  assume "update env t i ms md as rs es ident node st = Inr st'"
  from update_persisted [OF this] obtain vid e vm where
    u: "urnFromValidString env i = Inr (NAMESPACE, vid)" and
    g: "storageGet (vertexStorage st) vid = Some e" and
    r: "reconcile env \<lparr>now = t, userIdentity = the ident, nodeIdentity = the node\<rparr>
       ((vertexEntityToModel e)\<lparr>v_metadataSchema := ms, v_metadata := md\<rparr>) as rs es = Inr vm" and
    p: "if diff env (vertexEntityToModel e) vm \<noteq> [] \<or> elems (e_changesets e) = []
      then \<exists>c imm'.
        addChangeset env \<lparr>now = t, userIdentity = the ident, nodeIdentity = the node\<rparr>
          (vertexEntityToModel e) vm (immutableStorage st) =
          Inr (True, vm\<lparr>v_changesets := Some (elems (e_changesets e) @ [c])\<rparr>, imm') \<and>
        st' = \<lparr>vertexStorage =
                 storageSet (vertexModelToEntity
                   (vm\<lparr>v_changesets := Some (elems (e_changesets e) @ [c]), v_updated := t\<rparr>))
                   (vertexStorage st),
               immutableStorage = imm'\<rparr>
      else st' = st"
    by blast
  from reconcile_frame(1) [OF r] storageGet_SomeD [OF g] have id: "v_id vm = vid" by simp
  have "if diff env (vertexEntityToModel e) vm \<noteq> [] \<or> elems (e_changesets e) = []
          then \<exists>e' c. storageGet (vertexStorage st') vid = Some e' \<and>
                 e_changesets e' = Some (elems (e_changesets e) @ [c]) \<and>
                 cs_created c = t \<and> cs_patches c = diff env (vertexEntityToModel e) vm \<and>
                 e_updated e' = t
          else st' = st"
  proof (cases "diff env (vertexEntityToModel e) vm \<noteq> [] \<or> elems (e_changesets e) = []")
    case True
    with p obtain c imm' where
      a: "addChangeset env \<lparr>now = t, userIdentity = the ident, nodeIdentity = the node\<rparr>
          (vertexEntityToModel e) vm (immutableStorage st) =
          Inr (True, vm\<lparr>v_changesets := Some (elems (e_changesets e) @ [c])\<rparr>, imm')" and
      s: "st' = \<lparr>vertexStorage =
                 storageSet (vertexModelToEntity
                   (vm\<lparr>v_changesets := Some (elems (e_changesets e) @ [c]), v_updated := t\<rparr>))
                   (vertexStorage st),
               immutableStorage = imm'\<rparr>"
      by auto
    from addChangeset_changed [OF a] obtain c' where
      "vm\<lparr>v_changesets := Some (elems (e_changesets e) @ [c])\<rparr> =
       vm\<lparr>v_changesets := Some (elems (v_changesets (vertexEntityToModel e)) @ [c'])\<rparr>"
      "cs_created c' = t" "cs_patches c' = diff env (vertexEntityToModel e) vm"
      by auto
    then have c: "cs_created c = t" "cs_patches c = diff env (vertexEntityToModel e) vm"
      by (auto simp: entityToModel_changesets_elems changesets_update_eq)
    let ?E = "vertexModelToEntity
                   (vm\<lparr>v_changesets := Some (elems (e_changesets e) @ [c]), v_updated := t\<rparr>)"
    have "storageGet (vertexStorage st') vid = Some ?E"
      using s id by (simp add: storageGet_storageSet)
    moreover have "e_changesets ?E = Some (elems (e_changesets e) @ [c])"
      by (simp add: vertexModelToEntity_def)
    moreover have "e_updated ?E = t" by simp
    ultimately show ?thesis using True c by auto
  next
    case False
    with p show ?thesis by simp
  qed
  with u g r show "\<exists>vid e vm.
         urnFromValidString env i = Inr (NAMESPACE, vid) \<and>
         storageGet (vertexStorage st) vid = Some e \<and>
         reconcile env \<lparr>now = t, userIdentity = the ident, nodeIdentity = the node\<rparr>
           ((vertexEntityToModel e)\<lparr>v_metadataSchema := ms, v_metadata := md\<rparr>) as rs es =
           Inr vm \<and>
         (if diff env (vertexEntityToModel e) vm \<noteq> [] \<or> elems (e_changesets e) = []
          then \<exists>e' c. storageGet (vertexStorage st') vid = Some e' \<and>
                 e_changesets e' = Some (elems (e_changesets e) @ [c]) \<and>
                 cs_created c = t \<and> cs_patches c = diff env (vertexEntityToModel e) vm \<and>
                 e_updated e' = t
          else st' = st)"
    by blast
qed

lemma changeset_appended_iff_demo:
  "create demoEnv 10 ''01'' None None (Some [demoItem ''Foo'', demoItem ''b''])
     None None (Some ''u'') (Some ''n'') demoInit = Inr (''aig:01'', demoState1) \<and>
   (\<exists>e c. storageGet (vertexStorage demoState1) ''01'' = Some e \<and>
      e_changesets e = Some [c] \<and> cs_created c = 10) \<and>
   addChangeset demoEnv demoContext demoOriginal demoOriginal (immutableStorage demoState1) =
     Inr (False, demoOriginal, immutableStorage demoState1) \<and>
   diff demoEnv demoOriginal demoOriginal = [] \<and> elems (v_changesets demoOriginal) \<noteq> [] \<and>
   update demoEnv 20 ''aig:01'' None None (Some [demoItem ''b''])
     None None (Some ''u'') (Some ''n'') demoState1 = Inr demoState2 \<and>
   (\<exists>e' c. storageGet (vertexStorage demoState2) ''01'' = Some e' \<and>
      e_changesets e' = Some (elems (e_changesets (hd (vertexStorage demoState1))) @ [c]) \<and>
      cs_created c = 20 \<and> e_updated e' = 20) \<and>
   update demoEnv 20 ''aig:01'' None None (Some [demoItem ''Foo'', demoItem ''b''])
     None None (Some ''u'') (Some ''n'') demoState1 = Inr demoState1"
proof -
  from changeset_appended_iff [THEN conjunct2, THEN conjunct1, THEN mp, OF demoState1_create]
  have a: "\<exists>e c. storageGet (vertexStorage demoState1) ''01'' = Some e \<and>
      e_changesets e = Some [c] \<and> cs_created c = 10" .
  from changeset_appended_iff [THEN conjunct1, THEN mp, OF demo_addChangeset_noop]
  have b: "diff demoEnv demoOriginal demoOriginal = [] \<and> elems (v_changesets demoOriginal) \<noteq> []"
    by simp
  from changeset_appended_iff [THEN conjunct2, THEN conjunct2, THEN mp, OF demoState2_update]
    demo_urn demo_target1 demoState2_changed
  have c: "\<exists>e' c. storageGet (vertexStorage demoState2) ''01'' = Some e' \<and>
      e_changesets e' = Some (elems (e_changesets (hd (vertexStorage demoState1))) @ [c]) \<and>
      cs_created c = 20 \<and> e_updated e' = 20"
    by (auto split: if_splits)
  from a b c demoState1_create demo_addChangeset_noop demoState2_update demo_noop
  show ?thesis by simp
qed

text \<open>
  C4, evaluated at the failing input. The vertex is created at epoch 10 with the aliases
  \<open>Foo\<close> and \<open>b\<close>, updated at 20 with \<open>b\<close> alone, and updated at 30 with \<open>Foo\<close> and \<open>b\<close>; its
  live aliases are then \<open>b\<close> and \<open>Foo\<close>. The update at 40 passes the arguments of the update
  at 30 again. It is no no-op: it stores the vertex with a fourth changeset, whose patch
  list is not empty, and with \<^verbatim>\<open>updated\<close> set to 40. \<^verbatim>\<open>updateAlias\<close> searches the alias by
  its id alone, finds the deleted \<open>Foo\<close> of epoch 10 before the live one of epoch 30, and
  pushes a new alias, so the reconciled vertex differs from the stored one. On the first
  state, where no deleted alias comes first, the same arguments change nothing.
\<close>

theorem C4_repeated_update_appends_changeset:
  "update demoEnv 20 ''aig:01'' None None (Some [demoItem ''Foo'', demoItem ''b''])
     None None (Some ''u'') (Some ''n'') demoState1 = Inr demoState1 \<and>
   update demoEnv 30 ''aig:01'' None None (Some [demoItem ''Foo'', demoItem ''b''])
     None None (Some ''u'') (Some ''n'') demoState2 = Inr demoState3 \<and>
   update demoEnv 40 ''aig:01'' None None (Some [demoItem ''Foo'', demoItem ''b''])
     None None (Some ''u'') (Some ''n'') demoState3 = Inr demoState4 \<and>
   demoState4 \<noteq> demoState3 \<and>
   map ee_id (filter (\<lambda>a. ee_deleted a = None)
     (elems (e_aliases (hd (vertexStorage demoState3))))) = [''b'', ''Foo''] \<and>
   map cs_created (elems (e_changesets (hd (vertexStorage demoState3)))) = [10, 20, 30] \<and>
   map cs_created (elems (e_changesets (hd (vertexStorage demoState4)))) = [10, 20, 30, 40] \<and>
   cs_patches (last (elems (e_changesets (hd (vertexStorage demoState4))))) \<noteq> [] \<and>
   e_updated (hd (vertexStorage demoState3)) = 30 \<and>
   e_updated (hd (vertexStorage demoState4)) = 40"
proof -
  have "demoState4 \<noteq> demoState3"
    by (simp add: demoState4_def demoState3_def)
  moreover have
    "map ee_id (filter (\<lambda>a. ee_deleted a = None)
       (elems (e_aliases (hd (vertexStorage demoState3))))) = [''b'', ''Foo'']"
    "map cs_created (elems (e_changesets (hd (vertexStorage demoState3)))) = [10, 20, 30]"
    "map cs_created (elems (e_changesets (hd (vertexStorage demoState4)))) = [10, 20, 30, 40]"
    "cs_patches (last (elems (e_changesets (hd (vertexStorage demoState4))))) \<noteq> []"
    "e_updated (hd (vertexStorage demoState3)) = 30"
    "e_updated (hd (vertexStorage demoState4)) = 40"
    by (simp_all add: demoState3_def demoState4_def demoEntity_def demoAlias_def
        demoChangesets_def demoChangeset_def)
  ultimately show ?thesis
    using demo_noop demoState3_update demoState4_update by simp
qed

section \<open>Omitted metadata\<close>

text \<open>
  C9: \<^verbatim>\<open>update\<close> overwrites the metadata and the metadata schema of the model with the
  values passed, whatever was stored: the reconciled model that is compared and stored
  carries the passed values, and a successful update either changes nothing (the patch
  list was empty) or stores the vertex with exactly these values. When the difference of
  two vertices reports a removed metadata (or schema) as a \<^verbatim>\<open>remove\<close> patch, an update
  that omits a stored metadata (or schema) stores the vertex without it and appends a
  changeset that contains the \<^verbatim>\<open>remove\<close> patch.
\<close>

theorem C9_omitted_metadata_is_cleared:
  assumes "update env t i ms md as rs es ident node st = Inr st'"
  shows "\<exists>vid e vm.
     urnFromValidString env i = Inr (NAMESPACE, vid) \<and>
     storageGet (vertexStorage st) vid = Some e \<and>
     reconcile env \<lparr>now = t, userIdentity = the ident, nodeIdentity = the node\<rparr>
       ((vertexEntityToModel e)\<lparr>v_metadataSchema := ms, v_metadata := md\<rparr>) as rs es = Inr vm \<and>
     v_metadata vm = md \<and> v_metadataSchema vm = ms \<and>
     (st' = st \<or>
      (\<exists>e'. storageGet (vertexStorage st') vid = Some e' \<and>
            e_metadata e' = md \<and> e_metadataSchema e' = ms)) \<and>
     (diffReportsRemoval env \<and> md = None \<and> e_metadata e \<noteq> None \<longrightarrow>
        (\<exists>e' c. storageGet (vertexStorage st') vid = Some e' \<and> e_metadata e' = None \<and>
               e_changesets e' = Some (elems (e_changesets e) @ [c]) \<and>
               removePatch ''/metadata'' \<in> set (cs_patches c))) \<and>
     (diffReportsRemoval env \<and> ms = None \<and> e_metadataSchema e \<noteq> None \<longrightarrow>
        (\<exists>e' c. storageGet (vertexStorage st') vid = Some e' \<and> e_metadataSchema e' = None \<and>
               e_changesets e' = Some (elems (e_changesets e) @ [c]) \<and>
               removePatch ''/metadataSchema'' \<in> set (cs_patches c)))"
proof -
  let ?ctx = "\<lparr>now = t, userIdentity = the ident, nodeIdentity = the node\<rparr>"
  from update_persisted [OF assms] obtain vid e vm where
    u: "urnFromValidString env i = Inr (NAMESPACE, vid)" and
    g: "storageGet (vertexStorage st) vid = Some e" and
    r: "reconcile env ?ctx
       ((vertexEntityToModel e)\<lparr>v_metadataSchema := ms, v_metadata := md\<rparr>) as rs es = Inr vm" and
    p: "if diff env (vertexEntityToModel e) vm \<noteq> [] \<or> elems (e_changesets e) = []
      then \<exists>c imm'.
        addChangeset env ?ctx (vertexEntityToModel e) vm (immutableStorage st) =
          Inr (True, vm\<lparr>v_changesets := Some (elems (e_changesets e) @ [c])\<rparr>, imm') \<and>
        st' = \<lparr>vertexStorage =
                 storageSet (vertexModelToEntity
                   (vm\<lparr>v_changesets := Some (elems (e_changesets e) @ [c]), v_updated := t\<rparr>))
                   (vertexStorage st),
               immutableStorage = imm'\<rparr>
      else st' = st"
    by blast
  from reconcile_frame [OF r] storageGet_SomeD [OF g]
  have id: "v_id vm = vid" and md: "v_metadata vm = md" and ms: "v_metadataSchema vm = ms"
    by simp_all
  have persisted: "\<exists>e' c. storageGet (vertexStorage st') vid = Some e' \<and>
      e_metadata e' = md \<and> e_metadataSchema e' = ms \<and>
      e_changesets e' = Some (elems (e_changesets e) @ [c]) \<and>
      cs_patches c = diff env (vertexEntityToModel e) vm"
    if d: "diff env (vertexEntityToModel e) vm \<noteq> [] \<or> elems (e_changesets e) = []"
  proof -
    from p d obtain c imm' where
      a: "addChangeset env ?ctx (vertexEntityToModel e) vm (immutableStorage st) =
          Inr (True, vm\<lparr>v_changesets := Some (elems (e_changesets e) @ [c])\<rparr>, imm')" and
      s: "st' = \<lparr>vertexStorage =
                 storageSet (vertexModelToEntity
                   (vm\<lparr>v_changesets := Some (elems (e_changesets e) @ [c]), v_updated := t\<rparr>))
                   (vertexStorage st),
               immutableStorage = imm'\<rparr>"
      by auto
    from addChangeset_changed [OF a]
    have c: "cs_patches c = diff env (vertexEntityToModel e) vm"
      by (auto simp: entityToModel_changesets_elems changesets_update_eq)
    let ?E = "vertexModelToEntity
                   (vm\<lparr>v_changesets := Some (elems (e_changesets e) @ [c]), v_updated := t\<rparr>)"
    have "storageGet (vertexStorage st') vid = Some ?E"
      using s id by (simp add: storageGet_storageSet)
    moreover have "e_changesets ?E = Some (elems (e_changesets e) @ [c])"
      by (simp add: vertexModelToEntity_def)
    moreover have "e_metadata ?E = md" "e_metadataSchema ?E = ms"
      using md ms by simp_all
    ultimately show ?thesis using c by blast
  qed
  have a: "st' = st \<or>
      (\<exists>e'. storageGet (vertexStorage st') vid = Some e' \<and>
            e_metadata e' = md \<and> e_metadataSchema e' = ms)"
  proof (cases "diff env (vertexEntityToModel e) vm \<noteq> [] \<or> elems (e_changesets e) = []")
    case True
    from persisted [OF this] show ?thesis by blast
  next
    case False
    with p show ?thesis by simp
  qed
  have b: "diffReportsRemoval env \<and> md = None \<and> e_metadata e \<noteq> None \<longrightarrow>
        (\<exists>e' c. storageGet (vertexStorage st') vid = Some e' \<and> e_metadata e' = None \<and>
               e_changesets e' = Some (elems (e_changesets e) @ [c]) \<and>
               removePatch ''/metadata'' \<in> set (cs_patches c))"
  proof
    assume h: "diffReportsRemoval env \<and> md = None \<and> e_metadata e \<noteq> None"
    with md have in_diff: "removePatch ''/metadata'' \<in> set (diff env (vertexEntityToModel e) vm)"
      unfolding diffReportsRemoval_def by simp
    then have "diff env (vertexEntityToModel e) vm \<noteq> []" by auto
    then have "diff env (vertexEntityToModel e) vm \<noteq> [] \<or> elems (e_changesets e) = []" by simp
    from persisted [OF this] in_diff h
    show "\<exists>e' c. storageGet (vertexStorage st') vid = Some e' \<and> e_metadata e' = None \<and>
               e_changesets e' = Some (elems (e_changesets e) @ [c]) \<and>
               removePatch ''/metadata'' \<in> set (cs_patches c)"
      by auto
  qed
  have c: "diffReportsRemoval env \<and> ms = None \<and> e_metadataSchema e \<noteq> None \<longrightarrow>
        (\<exists>e' c. storageGet (vertexStorage st') vid = Some e' \<and> e_metadataSchema e' = None \<and>
               e_changesets e' = Some (elems (e_changesets e) @ [c]) \<and>
               removePatch ''/metadataSchema'' \<in> set (cs_patches c))"
  proof
    assume h: "diffReportsRemoval env \<and> ms = None \<and> e_metadataSchema e \<noteq> None"
    with ms have in_diff:
      "removePatch ''/metadataSchema'' \<in> set (diff env (vertexEntityToModel e) vm)"
      unfolding diffReportsRemoval_def by simp
    then have "diff env (vertexEntityToModel e) vm \<noteq> []" by auto
    then have "diff env (vertexEntityToModel e) vm \<noteq> [] \<or> elems (e_changesets e) = []" by simp
    from persisted [OF this] in_diff h
    show "\<exists>e' c. storageGet (vertexStorage st') vid = Some e' \<and> e_metadataSchema e' = None \<and>
               e_changesets e' = Some (elems (e_changesets e) @ [c]) \<and>
               removePatch ''/metadataSchema'' \<in> set (cs_patches c)"
      by auto
  qed
  show ?thesis
    apply (rule exI [of _ vid], rule exI [of _ e], rule exI [of _ vm])
    apply (intro conjI)
           apply (rule u g r md ms a b c)+
    done
qed

lemma demoMeta_update:
  "update demoEnv 20 ''aig:02'' None None None None None (Some ''u'') (Some ''n'') demoMeta1 =
     Inr (projr (update demoEnv 20 ''aig:02'' None None None None None (Some ''u'') (Some ''n'')
       demoMeta1))"
  by code_simp

theorem C9_omitted_metadata_is_cleared_witness:
  "diffReportsRemoval demoEnv \<and>
   update demoEnv 20 ''aig:02'' None None None None None (Some ''u'') (Some ''n'') demoMeta1 =
     Inr (projr (update demoEnv 20 ''aig:02'' None None None None None (Some ''u'') (Some ''n'')
       demoMeta1)) \<and>
   e_metadata (hd (vertexStorage demoMeta1)) = Some (JStr ''m'') \<and>
   e_metadataSchema (hd (vertexStorage demoMeta1)) = Some ''S'' \<and>
   (\<exists>e' c.
      storageGet (vertexStorage (projr (update demoEnv 20 ''aig:02'' None None None None None
        (Some ''u'') (Some ''n'') demoMeta1))) ''02'' = Some e' \<and>
      e_metadata e' = None \<and>
      e_changesets e' = Some (elems (e_changesets (hd (vertexStorage demoMeta1))) @ [c]) \<and>
      removePatch ''/metadata'' \<in> set (cs_patches c)) \<and>
   (\<exists>e' c.
      storageGet (vertexStorage (projr (update demoEnv 20 ''aig:02'' None None None None None
        (Some ''u'') (Some ''n'') demoMeta1))) ''02'' = Some e' \<and>
      e_metadataSchema e' = None \<and>
      e_changesets e' = Some (elems (e_changesets (hd (vertexStorage demoMeta1))) @ [c]) \<and>
      removePatch ''/metadataSchema'' \<in> set (cs_patches c))"
proof -
  have u: "urnFromValidString demoEnv ''aig:02'' = Inr (NAMESPACE, ''02'')"
    by code_simp
  have g: "storageGet (vertexStorage demoMeta1) ''02'' = Some (hd (vertexStorage demoMeta1))"
    by code_simp
  have m: "e_metadata (hd (vertexStorage demoMeta1)) = Some (JStr ''m'')"
    by (simp add: demoMeta1_def)
  have s: "e_metadataSchema (hd (vertexStorage demoMeta1)) = Some ''S''"
    by (simp add: demoMeta1_def)
  from C9_omitted_metadata_is_cleared [OF demoMeta_update] u g m demo_diffReportsRemoval
  have a: "\<exists>e' c.
      storageGet (vertexStorage (projr (update demoEnv 20 ''aig:02'' None None None None None
        (Some ''u'') (Some ''n'') demoMeta1))) ''02'' = Some e' \<and>
      e_metadata e' = None \<and>
      e_changesets e' = Some (elems (e_changesets (hd (vertexStorage demoMeta1))) @ [c]) \<and>
      removePatch ''/metadata'' \<in> set (cs_patches c)"
    by auto
  from C9_omitted_metadata_is_cleared [OF demoMeta_update] u g s demo_diffReportsRemoval
  have b: "\<exists>e' c.
      storageGet (vertexStorage (projr (update demoEnv 20 ''aig:02'' None None None None None
        (Some ''u'') (Some ''n'') demoMeta1))) ''02'' = Some e' \<and>
      e_metadataSchema e' = None \<and>
      e_changesets e' = Some (elems (e_changesets (hd (vertexStorage demoMeta1))) @ [c]) \<and>
      removePatch ''/metadataSchema'' \<in> set (cs_patches c)"
    by auto
  from a b demo_diffReportsRemoval demoMeta_update m s show ?thesis by simp
qed

section \<open>The hash chain\<close>

lemma specChain_snoc:
  "specChain env prev (cs @ [c]) \<longleftrightarrow>
     specChain env prev cs \<and>
     cs_hash c = bytesToBase64 env (specDigest env (last (prev # digests env prev cs)) c)"
  by (induction cs arbitrary: prev) auto

lemma digests_snoc:
  "digests env prev (cs @ [c]) =
     digests env prev cs @ [specDigest env (last (prev # digests env prev cs)) c]"
  by (induction cs arbitrary: prev) auto

lemma chain_last_hash:
  "specChain env prev cs \<Longrightarrow> cs \<noteq> [] \<Longrightarrow>
   cs_hash (last cs) = bytesToBase64 env (last (digests env prev cs))"
proof (induction cs arbitrary: prev)
  case Nil
  then show ?case by simp
next
  case (Cons c cs)
  then show ?case by (cases cs) auto
qed

text \<open>
  The link that \<^verbatim>\<open>addChangeset\<close> reads back from the stored hash of the last changeset is
  the raw digest of that changeset, when base64 decodes what it encoded.
\<close>

lemma chain_link:
  assumes "\<forall>bs. base64ToBytes env (bytesToBase64 env bs) = bs"
    and "specChain env [] cs"
  shows "(if cs = [] then [] else base64ToBytes env (cs_hash (last cs))) =
     last ([] # digests env [] cs)"
proof (cases "cs = []")
  case True
  then show ?thesis by simp
next
  case False
  then have "digests env [] cs \<noteq> []" by (cases cs) simp_all
  with False chain_last_hash [OF assms(2) False] assms(1) show ?thesis by simp
qed

lemma addChangeset_extends_chain:
  assumes rt: "\<forall>bs. base64ToBytes env (bytesToBase64 env bs) = bs"
    and a: "addChangeset env ctx orig upd imm = Inr (True, upd', imm')"
    and ch: "specChain env [] (elems (v_changesets orig))"
  shows "\<exists>c sig integ jwt.
     upd' = upd\<lparr>v_changesets := Some (elems (v_changesets orig) @ [c])\<rparr> \<and>
     specChain env [] (elems (v_changesets orig) @ [c]) \<and>
     cs_hash c =
       bytesToBase64 env (last (digests env [] (elems (v_changesets orig) @ [c]))) \<and>
     vaultSign env (nodeIdentity ctx @ ''/'' @ vaultKeyId env)
       (last (digests env [] (elems (v_changesets orig) @ [c]))) = Inr sig \<and>
     createVerifiableCredential env (nodeIdentity ctx)
       (nodeIdentity ctx @ ''#'' @ assertionMethodId env)
       \<lparr>signature = bytesToBase64 env sig, integrity = integ\<rparr> = Inr jwt \<and>
     immutableStore env imm (nodeIdentity ctx) (utf8ToBytes env jwt) =
       Inr (the (cs_immutableStorageId c), imm')"
proof -
  let ?prior = "elems (v_changesets orig)"
  note link = chain_link [OF rt ch]
  from addChangeset_changed [OF a] obtain c sig integ jwt where
    u: "upd' = upd\<lparr>v_changesets := Some (?prior @ [c])\<rparr>" and
    h: "cs_hash c = bytesToBase64 env (specDigest env (last ([] # digests env [] ?prior)) c)" and
    s: "vaultSign env (nodeIdentity ctx @ ''/'' @ vaultKeyId env)
          (specDigest env (last ([] # digests env [] ?prior)) c) = Inr sig" and
    j: "createVerifiableCredential env (nodeIdentity ctx)
       (nodeIdentity ctx @ ''#'' @ assertionMethodId env)
       \<lparr>signature = bytesToBase64 env sig, integrity = integ\<rparr> = Inr jwt" and
    st: "immutableStore env imm (nodeIdentity ctx) (utf8ToBytes env jwt) =
       Inr (the (cs_immutableStorageId c), imm')"
    unfolding link by blast
  have l: "last (digests env [] (?prior @ [c])) =
      specDigest env (last ([] # digests env [] ?prior)) c"
    by (simp add: digests_snoc)
  from ch h have c: "specChain env [] (?prior @ [c])" by (simp only: specChain_snoc simp_thms)
  note h' = h [unfolded l [symmetric]] and s' = s [unfolded l [symmetric]]
  show ?thesis
    apply (rule exI [of _ c], rule exI [of _ sig], rule exI [of _ integ], rule exI [of _ jwt])
    apply (intro conjI)
         apply (rule u c h' s' j st)+
    done
qed

lemma reachable_chain:
  assumes rt: "\<forall>bs. base64ToBytes env (bytesToBase64 env bs) = bs"
    and "reachable env st" and "e \<in> set (vertexStorage st)"
  shows "specChain env [] (elems (e_changesets e))"
  using assms(2,3)
proof (induction arbitrary: e rule: reachable.induct)
  case (reachable_init imm)
  then show ?case by simp
next
  case (reachable_create st t i metadataSchema metadata aliases resources edges identity node urn st')
  from create_persisted [OF reachable_create.hyps(2)] obtain vm c imm' orig ctx where
    a: "addChangeset env ctx orig vm (immutableStorage st) =
       Inr (True, vm\<lparr>v_changesets := Some [c]\<rparr>, imm')" and
    o: "v_changesets orig = None" and
    s: "st' = \<lparr>vertexStorage =
              storageSet (vertexModelToEntity (vm\<lparr>v_changesets := Some [c]\<rparr>))
                (vertexStorage st),
            immutableStorage = imm'\<rparr>"
    by fastforce
  from o have "specChain env [] (elems (v_changesets orig))" by simp
  from addChangeset_extends_chain [OF rt a this] o
  have "specChain env [] [c]" by (auto simp: changesets_update_eq)
  then have "specChain env [] (elems (e_changesets
      (vertexModelToEntity (vm\<lparr>v_changesets := Some [c]\<rparr>))))"
    by (simp add: modelToEntity_changesets)
  moreover from s reachable_create.prems
    set_storageSet [of "vertexModelToEntity (vm\<lparr>v_changesets := Some [c]\<rparr>)" "vertexStorage st"]
  have "e = vertexModelToEntity (vm\<lparr>v_changesets := Some [c]\<rparr>) \<or> e \<in> set (vertexStorage st)"
    by auto
  ultimately show ?case using reachable_create.IH by blast
next
  case (reachable_update st t i metadataSchema metadata aliases resources edges identity node st')
  from update_persisted [OF reachable_update.hyps(2)] obtain vid e0 vm where
    g: "storageGet (vertexStorage st) vid = Some e0" and
    p: "if diff env (vertexEntityToModel e0) vm \<noteq> [] \<or> elems (e_changesets e0) = []
      then \<exists>c imm'.
        addChangeset env \<lparr>now = t, userIdentity = the identity, nodeIdentity = the node\<rparr>
          (vertexEntityToModel e0) vm (immutableStorage st) =
          Inr (True, vm\<lparr>v_changesets := Some (elems (e_changesets e0) @ [c])\<rparr>, imm') \<and>
        st' = \<lparr>vertexStorage =
                 storageSet (vertexModelToEntity
                   (vm\<lparr>v_changesets := Some (elems (e_changesets e0) @ [c]), v_updated := t\<rparr>))
                   (vertexStorage st),
               immutableStorage = imm'\<rparr>
      else st' = st"
    by blast
  show ?case
  proof (cases "diff env (vertexEntityToModel e0) vm \<noteq> [] \<or> elems (e_changesets e0) = []")
    case True
    with p obtain c imm' where
      a: "addChangeset env \<lparr>now = t, userIdentity = the identity, nodeIdentity = the node\<rparr>
          (vertexEntityToModel e0) vm (immutableStorage st) =
          Inr (True, vm\<lparr>v_changesets := Some (elems (e_changesets e0) @ [c])\<rparr>, imm')" and
      s: "st' = \<lparr>vertexStorage =
                 storageSet (vertexModelToEntity
                   (vm\<lparr>v_changesets := Some (elems (e_changesets e0) @ [c]), v_updated := t\<rparr>))
                   (vertexStorage st),
               immutableStorage = imm'\<rparr>"
      by auto
    let ?E = "vertexModelToEntity
                   (vm\<lparr>v_changesets := Some (elems (e_changesets e0) @ [c]), v_updated := t\<rparr>)"
    from storageGet_SomeD [OF g] reachable_update.IH
    have "specChain env [] (elems (v_changesets (vertexEntityToModel e0)))"
      by (simp add: entityToModel_changesets_elems)
    from addChangeset_extends_chain [OF rt a this]
    have "specChain env [] (elems (e_changesets e0) @ [c])"
      by (auto simp: changesets_update_eq entityToModel_changesets_elems)
    then have "specChain env [] (elems (e_changesets ?E))"
      by (simp add: modelToEntity_changesets)
    moreover from s reachable_update.prems set_storageSet [of ?E "vertexStorage st"]
    have "e = ?E \<or> e \<in> set (vertexStorage st)" by auto
    ultimately show ?thesis using reachable_update.IH by blast
  next
    case False
    with p reachable_update.prems reachable_update.IH show ?thesis by simp
  qed
next
  case (reachable_removeImmutable st i node st')
  from removeImmutable_Inr [OF reachable_removeImmutable.hyps(2)]
  obtain vid e0 imm hasChanged changesets where
    g: "storageGet (vertexStorage st) vid = Some e0" and
    l: "forEach (removeImmutableStep env (the node)) (immutableStorage st, False, [])
          (elems (e_changesets e0)) = Inr (imm, hasChanged, changesets)" and
    s: "st' = (if hasChanged
            then \<lparr>vertexStorage =
                    storageSet (e0\<lparr>e_changesets := Some changesets\<rparr>) (vertexStorage st),
                  immutableStorage = imm\<rparr>
            else st\<lparr>immutableStorage := imm\<rparr>)" by blast
  from removeImmutable_loop [OF l] have out: "changesets = map detach (elems (e_changesets e0))"
    by simp
  from s reachable_removeImmutable.prems
    set_storageSet [of "e0\<lparr>e_changesets := Some changesets\<rparr>" "vertexStorage st"]
  have "e = e0\<lparr>e_changesets := Some changesets\<rparr> \<or> e \<in> set (vertexStorage st)"
    by (auto split: if_splits)
  moreover from storageGet_SomeD [OF g] reachable_removeImmutable.IH
  have "specChain env [] (elems (e_changesets e0))" by simp
  then have "specChain env [] (elems (e_changesets (e0\<lparr>e_changesets := Some changesets\<rparr>)))"
    using out by simp
  ultimately show ?case using reachable_removeImmutable.IH by blast
qed

text \<open>
  C2, as the claim states it, fails: the patches are hashed as \<^verbatim>\<open>ObjectHelper.toBytes\<close>
  serializes them, not in a canonical serialization. A vertex is created with metadata
  whose properties are \<open>b\<close> and \<open>a\<close>, in this order. The bytes that go into the digest keep
  the order, the canonical serialization sorts the properties, and the stored hash is the
  base64 of the digest over the former and not of the digest over the latter.
\<close>

theorem C2_canonical_counterexample:
  "(case create jsonEnv 10 ''03'' None (Some demoUnsorted) None None None
           (Some ''u'') (Some ''n'') demoInit of
      Inl e \<Rightarrow> False
    | Inr (urn, st) \<Rightarrow>
        (case elems (e_changesets (hd (vertexStorage st))) of
           [c] \<Rightarrow>
             bytesToUtf8 jsonEnv (toBytes jsonEnv (cs_patches c)) =
               ''[{\"op\":\"add\",\"path\":\"/metadata\",\"value\":{\"b\":1,\"a\":2}}]'' \<and>
             bytesToUtf8 jsonEnv (canonicalPatches (cs_patches c)) =
               ''[{\"op\":\"add\",\"path\":\"/metadata\",\"value\":{\"a\":2,\"b\":1}}]'' \<and>
             cs_hash c = bytesToBase64 jsonEnv (specDigest jsonEnv [] c) \<and>
             cs_hash c \<noteq> bytesToBase64 jsonEnv (canonicalDigest jsonEnv canonicalPatches [] c)
         | _ \<Rightarrow> False))"
  by code_simp

text \<open>
  C2, amended: when base64 decodes what it encoded, the changesets of every stored vertex
  of every reachable state form a hash chain that starts from the empty previous digest:
  each stored hash is the base64 of Blake2b-256 over the raw digest of the changeset
  before, the decimal representation of \<^verbatim>\<open>created\<close>, the bytes of \<^verbatim>\<open>userIdentity\<close> and the
  bytes that \<^verbatim>\<open>ObjectHelper.toBytes\<close> returns for the patches. And when \<^verbatim>\<open>addChangeset\<close>
  appends a changeset to such a chain, the stored hash is the base64 of the raw digest,
  the vault signs the raw digest itself, and the base64 of that signature is in the
  credential stored under the immutable storage id that the changeset records.
\<close>

theorem C2_hash_chain:
  assumes "\<forall>bs. base64ToBytes env (bytesToBase64 env bs) = bs"
  shows "(reachable env st \<longrightarrow>
            (\<forall>e \<in> set (vertexStorage st). specChain env [] (elems (e_changesets e)))) \<and>
     (addChangeset env ctx orig upd imm = Inr (True, upd', imm') \<and>
      specChain env [] (elems (v_changesets orig)) \<longrightarrow>
        (\<exists>c sig integ jwt.
           upd' = upd\<lparr>v_changesets := Some (elems (v_changesets orig) @ [c])\<rparr> \<and>
           specChain env [] (elems (v_changesets orig) @ [c]) \<and>
           cs_hash c =
             bytesToBase64 env (last (digests env [] (elems (v_changesets orig) @ [c]))) \<and>
           vaultSign env (nodeIdentity ctx @ ''/'' @ vaultKeyId env)
             (last (digests env [] (elems (v_changesets orig) @ [c]))) = Inr sig \<and>
           createVerifiableCredential env (nodeIdentity ctx)
             (nodeIdentity ctx @ ''#'' @ assertionMethodId env)
             \<lparr>signature = bytesToBase64 env sig, integrity = integ\<rparr> = Inr jwt \<and>
           immutableStore env imm (nodeIdentity ctx) (utf8ToBytes env jwt) =
             Inr (the (cs_immutableStorageId c), imm')))"
  using reachable_chain [OF assms] addChangeset_extends_chain [OF assms]
  by blast

theorem C2_hash_chain_witness:
  "(\<forall>bs. base64ToBytes demoEnv (bytesToBase64 demoEnv bs) = bs) \<and>
   reachable demoEnv demoState3 \<and>
   elems (e_changesets (hd (vertexStorage demoState3))) = demoChangesets \<and>
   specChain demoEnv [] demoChangesets \<and>
   specChain demoEnv [] (elems (v_changesets demoOriginal)) \<and>
   (\<exists>c sig. specChain demoEnv [] (elems (v_changesets demoOriginal) @ [c]) \<and>
      cs_hash c = bytesToBase64 demoEnv
        (last (digests demoEnv [] (elems (v_changesets demoOriginal) @ [c]))) \<and>
      vaultSign demoEnv ''n/auditable-item-graph''
        (last (digests demoEnv [] (elems (v_changesets demoOriginal) @ [c]))) = Inr sig)"
proof -
  have c: "elems (e_changesets (hd (vertexStorage demoState3))) = demoChangesets"
    by (simp add: demoState3_def demoEntity_def)
  have m: "hd (vertexStorage demoState3) \<in> set (vertexStorage demoState3)"
    by (simp add: demoState3_def)
  from C2_hash_chain [OF demo_roundtrip, THEN conjunct1, THEN mp, OF demo_reachable3] m
  have s3: "specChain demoEnv [] (elems (e_changesets (hd (vertexStorage demoState3))))"
    by blast
  have m1: "hd (vertexStorage demoState1) \<in> set (vertexStorage demoState1)"
    by (simp add: demoState1_def)
  from C2_hash_chain [OF demo_roundtrip, THEN conjunct1, THEN mp, OF demo_reachable1] m1
  have "specChain demoEnv [] (elems (e_changesets (hd (vertexStorage demoState1))))"
    by blast
  then have s1: "specChain demoEnv [] (elems (v_changesets demoOriginal))"
    by (simp add: demoOriginal_def entityToModel_changesets_elems)
  have k: "nodeIdentity demoContext @ ''/'' @ vaultKeyId demoEnv = ''n/auditable-item-graph''"
    by code_simp
  from C2_hash_chain [OF demo_roundtrip, THEN conjunct2, THEN mp, OF conjI, OF demo_addChangeset s1]
  have "\<exists>c sig. specChain demoEnv [] (elems (v_changesets demoOriginal) @ [c]) \<and>
      cs_hash c = bytesToBase64 demoEnv
        (last (digests demoEnv [] (elems (v_changesets demoOriginal) @ [c]))) \<and>
      vaultSign demoEnv ''n/auditable-item-graph''
        (last (digests demoEnv [] (elems (v_changesets demoOriginal) @ [c]))) = Inr sig"
    unfolding k by blast
  with demo_roundtrip demo_reachable3 c s3 s1 show ?thesis by simp
qed

section \<open>Uniqueness of element ids\<close>

lemma forEach_invariant:
  assumes "forEach body s xs = Inr s'"
    and "I s"
    and "\<And>a x b. x \<in> set xs \<Longrightarrow> I a \<Longrightarrow> body a x = Inr b \<Longrightarrow> I b"
  shows "I s'"
  using assms
proof (induction xs arbitrary: s)
  case Nil
  then show ?case by simp
next
  case (Cons x xs)
  from Cons.prems(1) obtain s1 where
    b: "body s x = Inr s1" and r: "forEach body s1 xs = Inr s'"
    by (auto split: sum.splits)
  from Cons.prems(3) [OF _ Cons.prems(2) b] have i: "I s1" by simp
  have "\<And>a y b. y \<in> set xs \<Longrightarrow> I a \<Longrightarrow> body a y = Inr b \<Longrightarrow> I b"
    using Cons.prems(3) by (meson list.set_intros(2))
  from Cons.IH [OF r i this] show ?case .
qed

lemma updateFirst_ids:
  "(\<And>a. el_id (f a) = el_id a) \<Longrightarrow> map el_id (updateFirst P f xs) = map el_id xs"
  by (induction xs) simp_all

lemma updateFirst_all:
  "\<forall>a \<in> set xs. Q a \<Longrightarrow> (\<And>a. Q a \<Longrightarrow> Q (f a)) \<Longrightarrow> \<forall>a \<in> set (updateFirst P f xs). Q a"
  by (induction xs) simp_all

lemma inUpdateList_Some: "inUpdateList i (Some us) \<longleftrightarrow> i \<in> it_id ` set us"
  by (auto simp: inUpdateList_def find_None_iff)

lemma liveInList_push:
  assumes "liveInList ids xs" and "find (\<lambda>a. el_id a = i) xs = None"
    and "el_id n = i" and "el_deleted n = None"
  shows "liveInList ids (xs @ [n])"
  using assms by (auto simp: liveInList_def find_None_iff)

lemma liveInList_found:
  assumes "liveInList ids xs" and "find (\<lambda>a. el_id a = i) xs = Some x" and "i \<in> ids"
  shows "\<not> truthy (el_deleted x)"
  using assms by (auto simp: liveInList_def find_Some_iff)

lemma liveInList_updateFirst:
  assumes "liveInList ids xs"
    and "\<And>a. el_id (f a) = el_id a" and "\<And>a. el_deleted (f a) = el_deleted a"
  shows "liveInList ids (updateFirst P f xs)"
proof -
  have "\<forall>a \<in> set (updateFirst P f xs). el_id a \<in> ids \<longrightarrow> \<not> truthy (el_deleted a)"
    using assms by (intro updateFirst_all) (auto simp: liveInList_def)
  with assms show ?thesis by (simp add: liveInList_def updateFirst_ids)
qed

lemma mark_ids: "(el_id \<circ> (\<lambda>a. if c a then a\<lparr>el_deleted := d\<rparr> else a)) = el_id"
  by (rule ext) simp

lemma liveInList_marked:
  assumes "distinct (map el_id xs)"
    and "\<forall>a \<in> set xs. el_deleted a \<noteq> None \<longrightarrow> \<not> inUpdateList (el_id a) (Some us)"
  shows "liveInList (it_id ` set us)
     (map (\<lambda>a. if el_deleted a = None \<and> \<not> inUpdateList (el_id a) (Some us)
               then a\<lparr>el_deleted := Some t\<rparr> else a) xs)"
  using assms by (auto simp: liveInList_def mark_ids inUpdateList_Some)

lemma updateAlias_live:
  assumes "updateAlias env ctx v u = Inr v'" and "it_id u \<in> ids"
    and "liveInList ids (elems (v_aliases v))"
  shows "liveInList ids (elems (v_aliases v'))"
proof (cases "find (\<lambda>a. el_id a = it_id u) (elems (v_aliases v))")
  case None
  then have n: "(case v_aliases v of None \<Rightarrow> None
               | Some xs \<Rightarrow> find (\<lambda>a. el_id a = it_id u) xs) = None"
    by (cases "v_aliases v") simp_all
  from assms(1) have "elems (v_aliases v') = elems (v_aliases v) @
      [\<lparr>el_id = it_id u, el_created = now ctx, el_updated = None,
        el_deleted = None, el_metadataSchema = it_metadataSchema u,
        el_metadata = it_metadata u\<rparr>]"
    unfolding updateAlias_def Let_def n by (auto simp: elems_def split: if_splits)
  with liveInList_push [OF assms(3) None] show ?thesis by simp
next
  case (Some x)
  then obtain xs where xs: "v_aliases v = Some xs" "find (\<lambda>a. el_id a = it_id u) xs = Some x"
    by (cases "v_aliases v") simp_all
  from liveInList_found [OF assms(3) Some assms(2)] have live: "\<not> truthy (el_deleted x)" .
  from assms(1) xs live have
    "v' = v \<or> v' = v\<lparr>v_aliases := Some (updateFirst (\<lambda>a. el_id a = it_id u)
                (\<lambda>a. a\<lparr>el_updated := Some (now ctx),
                        el_metadataSchema := it_metadataSchema u,
                        el_metadata := it_metadata u\<rparr>) xs)\<rparr>"
    unfolding updateAlias_def Let_def by (auto split: if_splits)
  then show ?thesis
  proof
    assume "v' = v"
    with assms(3) show ?thesis by simp
  next
    assume "v' = v\<lparr>v_aliases := Some (updateFirst (\<lambda>a. el_id a = it_id u)
                (\<lambda>a. a\<lparr>el_updated := Some (now ctx),
                        el_metadataSchema := it_metadataSchema u,
                        el_metadata := it_metadata u\<rparr>) xs)\<rparr>"
    moreover from assms(3) xs have "liveInList ids (updateFirst (\<lambda>a. el_id a = it_id u)
                (\<lambda>a. a\<lparr>el_updated := Some (now ctx),
                        el_metadataSchema := it_metadataSchema u,
                        el_metadata := it_metadata u\<rparr>) xs)"
      by (intro liveInList_updateFirst) simp_all
    ultimately show ?thesis by simp
  qed
qed

lemma updateAliasList_distinct:
  assumes "updateAliasList env ctx v us = Inr v'"
    and "distinct (map el_id (elems (v_aliases v)))"
    and "\<forall>a \<in> set (elems (v_aliases v)). el_deleted a \<noteq> None \<longrightarrow> \<not> inUpdateList (el_id a) us"
  shows "distinct (map el_id (elems (v_aliases v')))"
proof (cases "arrayValue us")
  case True
  then obtain items where items: "us = Some items" by (cases us) simp_all
  let ?marked = "v\<lparr>v_aliases := map_option (map (\<lambda>alias.
        if el_deleted alias = None \<and> \<not> inUpdateList (el_id alias) us
        then alias\<lparr>el_deleted := Some (now ctx)\<rparr> else alias)) (v_aliases v)\<rparr>"
  from assms(1) True items have
    l: "forEach (updateAlias env ctx) ?marked items = Inr v'"
    by (simp add: updateAliasList_def)
  have "elems (v_aliases ?marked) = map (\<lambda>alias.
        if el_deleted alias = None \<and> \<not> inUpdateList (el_id alias) us
        then alias\<lparr>el_deleted := Some (now ctx)\<rparr> else alias) (elems (v_aliases v))"
    by (cases "v_aliases v") simp_all
  with liveInList_marked [OF assms(2), of items "now ctx"] assms(3) items
  have "liveInList (it_id ` set items) (elems (v_aliases ?marked))" by simp
  from forEach_invariant [OF l,
    of "\<lambda>v. liveInList (it_id ` set items) (elems (v_aliases v))", OF this]
    updateAlias_live
  have "liveInList (it_id ` set items) (elems (v_aliases v'))" by blast
  then show ?thesis by (simp add: liveInList_def)
next
  case False
  with assms(1) have "v' = v\<lparr>v_aliases := map_option (map (\<lambda>alias.
        if el_deleted alias = None \<and> \<not> inUpdateList (el_id alias) us
        then alias\<lparr>el_deleted := Some (now ctx)\<rparr> else alias)) (v_aliases v)\<rparr>"
    by (auto simp: updateAliasList_def)
  then have "map el_id (elems (v_aliases v')) = map el_id (elems (v_aliases v))"
    by (cases "v_aliases v") (simp_all add: comp_def)
  with assms(2) show ?thesis by simp
qed

lemma updateResource_live:
  assumes "updateResource env ctx v u = Inr v'" and "it_id u \<in> ids"
    and "liveInList ids (elems (v_resources v))"
  shows "liveInList ids (elems (v_resources v'))"
proof (cases "find (\<lambda>a. el_id a = it_id u) (elems (v_resources v))")
  case None
  then have n: "(case v_resources v of None \<Rightarrow> None
               | Some xs \<Rightarrow> find (\<lambda>a. el_id a = it_id u) xs) = None"
    by (cases "v_resources v") simp_all
  from assms(1) have "elems (v_resources v') = elems (v_resources v) @
      [\<lparr>el_id = it_id u, el_created = now ctx, el_updated = None,
        el_deleted = None, el_metadataSchema = it_metadataSchema u,
        el_metadata = it_metadata u\<rparr>]"
    unfolding updateResource_def Let_def n by (auto simp: elems_def split: if_splits)
  with liveInList_push [OF assms(3) None] show ?thesis by simp
next
  case (Some x)
  then obtain xs where xs: "v_resources v = Some xs" "find (\<lambda>a. el_id a = it_id u) xs = Some x"
    by (cases "v_resources v") simp_all
  from liveInList_found [OF assms(3) Some assms(2)] have live: "\<not> truthy (el_deleted x)" .
  from assms(1) xs live have
    "v' = v \<or> v' = v\<lparr>v_resources := Some (updateFirst (\<lambda>a. el_id a = it_id u)
                (\<lambda>a. a\<lparr>el_updated := Some (now ctx),
                        el_metadataSchema := it_metadataSchema u,
                        el_metadata := it_metadata u\<rparr>) xs)\<rparr>"
    unfolding updateResource_def Let_def by (auto split: if_splits)
  then show ?thesis
  proof
    assume "v' = v"
    with assms(3) show ?thesis by simp
  next
    assume "v' = v\<lparr>v_resources := Some (updateFirst (\<lambda>a. el_id a = it_id u)
                (\<lambda>a. a\<lparr>el_updated := Some (now ctx),
                        el_metadataSchema := it_metadataSchema u,
                        el_metadata := it_metadata u\<rparr>) xs)\<rparr>"
    moreover from assms(3) xs have "liveInList ids (updateFirst (\<lambda>a. el_id a = it_id u)
                (\<lambda>a. a\<lparr>el_updated := Some (now ctx),
                        el_metadataSchema := it_metadataSchema u,
                        el_metadata := it_metadata u\<rparr>) xs)"
      by (intro liveInList_updateFirst) simp_all
    ultimately show ?thesis by simp
  qed
qed

lemma updateResourceList_distinct:
  assumes "updateResourceList env ctx v us = Inr v'"
    and "distinct (map el_id (elems (v_resources v)))"
    and "\<forall>a \<in> set (elems (v_resources v)). el_deleted a \<noteq> None \<longrightarrow> \<not> inUpdateList (el_id a) us"
  shows "distinct (map el_id (elems (v_resources v')))"
proof (cases "arrayValue us")
  case True
  then obtain items where items: "us = Some items" by (cases us) simp_all
  let ?marked = "v\<lparr>v_resources := map_option (map (\<lambda>resource.
        if el_deleted resource = None \<and> \<not> inUpdateList (el_id resource) us
        then resource\<lparr>el_deleted := Some (now ctx)\<rparr> else resource)) (v_resources v)\<rparr>"
  from assms(1) True items have
    l: "forEach (updateResource env ctx) ?marked items = Inr v'"
    by (simp add: updateResourceList_def)
  have "elems (v_resources ?marked) = map (\<lambda>resource.
        if el_deleted resource = None \<and> \<not> inUpdateList (el_id resource) us
        then resource\<lparr>el_deleted := Some (now ctx)\<rparr> else resource) (elems (v_resources v))"
    by (cases "v_resources v") simp_all
  with liveInList_marked [OF assms(2), of items "now ctx"] assms(3) items
  have "liveInList (it_id ` set items) (elems (v_resources ?marked))" by simp
  from forEach_invariant [OF l,
    of "\<lambda>v. liveInList (it_id ` set items) (elems (v_resources v))", OF this]
    updateResource_live
  have "liveInList (it_id ` set items) (elems (v_resources v'))" by blast
  then show ?thesis by (simp add: liveInList_def)
next
  case False
  with assms(1) have "v' = v\<lparr>v_resources := map_option (map (\<lambda>resource.
        if el_deleted resource = None \<and> \<not> inUpdateList (el_id resource) us
        then resource\<lparr>el_deleted := Some (now ctx)\<rparr> else resource)) (v_resources v)\<rparr>"
    by (auto simp: updateResourceList_def)
  then have "map el_id (elems (v_resources v')) = map el_id (elems (v_resources v))"
    by (cases "v_resources v") (simp_all add: comp_def)
  with assms(2) show ?thesis by simp
qed

lemma updateEdge_live:
  assumes "updateEdge env ctx v u = Inr v'" and "it_id u \<in> ids"
    and "liveInList ids (elems (v_edges v))"
  shows "liveInList ids (elems (v_edges v'))"
proof (cases "find (\<lambda>a. el_id a = it_id u) (elems (v_edges v))")
  case None
  then have n: "(case v_edges v of None \<Rightarrow> None
               | Some xs \<Rightarrow> find (\<lambda>a. el_id a = it_id u) xs) = None"
    by (cases "v_edges v") simp_all
  from assms(1) have "elems (v_edges v') = elems (v_edges v) @
      [\<lparr>el_id = it_id u, el_created = now ctx, el_updated = None,
        el_deleted = None, el_metadataSchema = it_metadataSchema u,
        el_metadata = it_metadata u, el_relationship = it_relationship u\<rparr>]"
    unfolding updateEdge_def Let_def n by (auto simp: elems_def split: if_splits)
  with liveInList_push [OF assms(3) None] show ?thesis by simp
next
  case (Some x)
  then obtain xs where xs: "v_edges v = Some xs" "find (\<lambda>a. el_id a = it_id u) xs = Some x"
    by (cases "v_edges v") simp_all
  from liveInList_found [OF assms(3) Some assms(2)] have live: "\<not> truthy (el_deleted x)" .
  from assms(1) xs live have
    "v' = v \<or> v' = v\<lparr>v_edges := Some (updateFirst (\<lambda>a. el_id a = it_id u)
                (\<lambda>a. a\<lparr>el_updated := Some (now ctx),
                        el_relationship := it_relationship u,
                        el_metadataSchema := it_metadataSchema u,
                        el_metadata := it_metadata u\<rparr>) xs)\<rparr>"
    unfolding updateEdge_def Let_def by (auto split: if_splits)
  then show ?thesis
  proof
    assume "v' = v"
    with assms(3) show ?thesis by simp
  next
    assume "v' = v\<lparr>v_edges := Some (updateFirst (\<lambda>a. el_id a = it_id u)
                (\<lambda>a. a\<lparr>el_updated := Some (now ctx),
                        el_relationship := it_relationship u,
                        el_metadataSchema := it_metadataSchema u,
                        el_metadata := it_metadata u\<rparr>) xs)\<rparr>"
    moreover from assms(3) xs have "liveInList ids (updateFirst (\<lambda>a. el_id a = it_id u)
                (\<lambda>a. a\<lparr>el_updated := Some (now ctx),
                        el_relationship := it_relationship u,
                        el_metadataSchema := it_metadataSchema u,
                        el_metadata := it_metadata u\<rparr>) xs)"
      by (intro liveInList_updateFirst) simp_all
    ultimately show ?thesis by simp
  qed
qed

lemma updateEdgeList_distinct:
  assumes "updateEdgeList env ctx v us = Inr v'"
    and "distinct (map el_id (elems (v_edges v)))"
    and "\<forall>a \<in> set (elems (v_edges v)). el_deleted a \<noteq> None \<longrightarrow> \<not> inUpdateList (el_id a) us"
  shows "distinct (map el_id (elems (v_edges v')))"
proof (cases "arrayValue us")
  case True
  then obtain items where items: "us = Some items" by (cases us) simp_all
  let ?marked = "v\<lparr>v_edges := map_option (map (\<lambda>edge.
        if el_deleted edge = None \<and> \<not> inUpdateList (el_id edge) us
        then edge\<lparr>el_deleted := Some (now ctx)\<rparr> else edge)) (v_edges v)\<rparr>"
  from assms(1) True items have
    l: "forEach (updateEdge env ctx) ?marked items = Inr v'"
    by (simp add: updateEdgeList_def)
  have "elems (v_edges ?marked) = map (\<lambda>edge.
        if el_deleted edge = None \<and> \<not> inUpdateList (el_id edge) us
        then edge\<lparr>el_deleted := Some (now ctx)\<rparr> else edge) (elems (v_edges v))"
    by (cases "v_edges v") simp_all
  with liveInList_marked [OF assms(2), of items "now ctx"] assms(3) items
  have "liveInList (it_id ` set items) (elems (v_edges ?marked))" by simp
  from forEach_invariant [OF l,
    of "\<lambda>v. liveInList (it_id ` set items) (elems (v_edges v))", OF this]
    updateEdge_live
  have "liveInList (it_id ` set items) (elems (v_edges v'))" by blast
  then show ?thesis by (simp add: liveInList_def)
next
  case False
  with assms(1) have "v' = v\<lparr>v_edges := map_option (map (\<lambda>edge.
        if el_deleted edge = None \<and> \<not> inUpdateList (el_id edge) us
        then edge\<lparr>el_deleted := Some (now ctx)\<rparr> else edge)) (v_edges v)\<rparr>"
    by (auto simp: updateEdgeList_def)
  then have "map el_id (elems (v_edges v')) = map el_id (elems (v_edges v))"
    by (cases "v_edges v") (simp_all add: comp_def)
  with assms(2) show ?thesis by simp
qed

lemma frame_aliases:
  assumes "v'\<lparr>v_aliases := None\<rparr> = v\<lparr>v_aliases := None\<rparr>"
  shows "v_resources v' = v_resources v" "v_edges v' = v_edges v"
proof -
  have "v_resources v' = v_resources (v'\<lparr>v_aliases := None\<rparr>)" by simp
  also have "\<dots> = v_resources v" unfolding assms by simp
  finally show "v_resources v' = v_resources v" .
  have "v_edges v' = v_edges (v'\<lparr>v_aliases := None\<rparr>)" by simp
  also have "\<dots> = v_edges v" unfolding assms by simp
  finally show "v_edges v' = v_edges v" .
qed

lemma frame_resources:
  assumes "v'\<lparr>v_resources := None\<rparr> = v\<lparr>v_resources := None\<rparr>"
  shows "v_aliases v' = v_aliases v" "v_edges v' = v_edges v"
proof -
  have "v_aliases v' = v_aliases (v'\<lparr>v_resources := None\<rparr>)" by simp
  also have "\<dots> = v_aliases v" unfolding assms by simp
  finally show "v_aliases v' = v_aliases v" .
  have "v_edges v' = v_edges (v'\<lparr>v_resources := None\<rparr>)" by simp
  also have "\<dots> = v_edges v" unfolding assms by simp
  finally show "v_edges v' = v_edges v" .
qed

lemma frame_edges:
  assumes "v'\<lparr>v_edges := None\<rparr> = v\<lparr>v_edges := None\<rparr>"
  shows "v_aliases v' = v_aliases v" "v_resources v' = v_resources v"
proof -
  have "v_aliases v' = v_aliases (v'\<lparr>v_edges := None\<rparr>)" by simp
  also have "\<dots> = v_aliases v" unfolding assms by simp
  finally show "v_aliases v' = v_aliases v" .
  have "v_resources v' = v_resources (v'\<lparr>v_edges := None\<rparr>)" by simp
  also have "\<dots> = v_resources v" unfolding assms by simp
  finally show "v_resources v' = v_resources v" .
qed

text \<open>The ids stay distinct through the three reconcilers.\<close>

lemma reconcile_distinct:
  assumes r: "reconcile env ctx v as rs es = Inr vm"
    and d: "distinct (map el_id (elems (v_aliases v)))"
      "distinct (map el_id (elems (v_resources v)))"
      "distinct (map el_id (elems (v_edges v)))"
    and n: "\<forall>a \<in> set (elems (v_aliases v)). el_deleted a \<noteq> None \<longrightarrow> \<not> inUpdateList (el_id a) as"
      "\<forall>a \<in> set (elems (v_resources v)). el_deleted a \<noteq> None \<longrightarrow> \<not> inUpdateList (el_id a) rs"
      "\<forall>a \<in> set (elems (v_edges v)). el_deleted a \<noteq> None \<longrightarrow> \<not> inUpdateList (el_id a) es"
  shows "distinct (map el_id (elems (v_aliases vm))) \<and>
     distinct (map el_id (elems (v_resources vm))) \<and>
     distinct (map el_id (elems (v_edges vm)))"
proof -
  from reconcile_Inr [OF r] obtain v1 v2 where
    a: "updateAliasList env ctx v as = Inr v1" and
    b: "updateResourceList env ctx v1 rs = Inr v2" and
    c: "updateEdgeList env ctx v2 es = Inr vm" by blast
  note fa = frame_aliases [OF updateAliasList_frame [OF a]]
  note fb = frame_resources [OF updateResourceList_frame [OF b]]
  note fc = frame_edges [OF updateEdgeList_frame [OF c]]
  from updateAliasList_distinct [OF a d(1) n(1)]
  have 1: "distinct (map el_id (elems (v_aliases v1)))" .
  from updateResourceList_distinct [OF b] d(2) n(2) fa
  have 2: "distinct (map el_id (elems (v_resources v2)))" by simp
  from updateEdgeList_distinct [OF c] d(3) n(3) fa fb
  have 3: "distinct (map el_id (elems (v_edges vm)))" by simp
  from 1 2 3 fb fc show ?thesis by simp
qed

lemma modelToEntity_ids:
  "map ee_id (elems (e_aliases (vertexModelToEntity v))) = map el_id (elems (v_aliases v))"
  "map ee_id (elems (e_resources (vertexModelToEntity v))) = map el_id (elems (v_resources v))"
  "map ee_id (elems (e_edges (vertexModelToEntity v))) = map el_id (elems (v_edges v))"
proof -
  show "map ee_id (elems (e_aliases (vertexModelToEntity v))) = map el_id (elems (v_aliases v))"
    by (cases "v_aliases v")
      (simp_all add: vertexModelToEntity_def aliasModelToEntity_def comp_def)
  show "map ee_id (elems (e_resources (vertexModelToEntity v))) =
      map el_id (elems (v_resources v))"
    by (cases "v_resources v")
      (simp_all add: vertexModelToEntity_def aliasModelToEntity_def comp_def)
  show "map ee_id (elems (e_edges (vertexModelToEntity v))) = map el_id (elems (v_edges v))"
    by (cases "v_edges v")
      (simp_all add: vertexModelToEntity_def edgeModelToEntity_def comp_def)
qed

lemma uniqueIds_modelToEntity:
  "uniqueIds (vertexModelToEntity v) \<longleftrightarrow>
     distinct (map el_id (elems (v_aliases v))) \<and>
     distinct (map el_id (elems (v_resources v))) \<and>
     distinct (map el_id (elems (v_edges v)))"
  by (simp add: uniqueIds_def modelToEntity_ids)

lemma entityModel_element [simp]:
  "el_id (aliasEntityToModel a) = ee_id a"
  "el_deleted (aliasEntityToModel a) = ee_deleted a"
  "el_id (edgeEntityToModel b) = ee_id b"
  "el_deleted (edgeEntityToModel b) = ee_deleted b"
  by (simp_all add: aliasEntityToModel_def edgeEntityToModel_def)

lemma update_keeps_ids_unique:
  assumes u: "update env t i ms md as rs es ident node st = Inr st'"
    and p: "urnFromValidString env i = Inr (namespace, vertexId)"
    and g: "storageGet (vertexStorage st) vertexId = Some e"
    and n: "noDeletedResupply e as rs es"
    and inv: "\<forall>x \<in> set (vertexStorage st). uniqueIds x"
  shows "\<forall>x \<in> set (vertexStorage st'). uniqueIds x"
proof -
  from update_persisted [OF u] obtain vid e0 vm where
    p0: "urnFromValidString env i = Inr (NAMESPACE, vid)" and
    g0: "storageGet (vertexStorage st) vid = Some e0" and
    r0: "reconcile env \<lparr>now = t, userIdentity = the ident, nodeIdentity = the node\<rparr>
       ((vertexEntityToModel e0)\<lparr>v_metadataSchema := ms, v_metadata := md\<rparr>) as rs es = Inr vm" and
    q0: "if diff env (vertexEntityToModel e0) vm \<noteq> [] \<or> elems (e_changesets e0) = []
      then \<exists>c imm'.
        addChangeset env \<lparr>now = t, userIdentity = the ident, nodeIdentity = the node\<rparr>
          (vertexEntityToModel e0) vm (immutableStorage st) =
          Inr (True, vm\<lparr>v_changesets := Some (elems (e_changesets e0) @ [c])\<rparr>, imm') \<and>
        st' = \<lparr>vertexStorage =
                 storageSet (vertexModelToEntity
                   (vm\<lparr>v_changesets := Some (elems (e_changesets e0) @ [c]), v_updated := t\<rparr>))
                   (vertexStorage st),
               immutableStorage = imm'\<rparr>
      else st' = st"
    by blast
  from p p0 have "vid = vertexId" by simp
  with g g0 have e0: "e0 = e" by simp
  note r = r0 [unfolded e0]
  have q: "if diff env (vertexEntityToModel e) vm \<noteq> [] \<or> elems (e_changesets e) = []
      then \<exists>c imm'.
        st' = \<lparr>vertexStorage =
                 storageSet (vertexModelToEntity
                   (vm\<lparr>v_changesets := Some (elems (e_changesets e) @ [c]), v_updated := t\<rparr>))
                   (vertexStorage st),
               immutableStorage = imm'\<rparr>
      else st' = st"
    using q0 unfolding e0 by (auto split: if_splits)
  from storageGet_SomeD [OF g] inv have ue: "uniqueIds e" by simp
  let ?v = "(vertexEntityToModel e)\<lparr>v_metadataSchema := ms, v_metadata := md\<rparr>"
  have el: "elems (v_aliases ?v) = map aliasEntityToModel (elems (e_aliases e))"
    "elems (v_resources ?v) = map aliasEntityToModel (elems (e_resources e))"
    "elems (v_edges ?v) = map edgeEntityToModel (elems (e_edges e))"
    by (simp_all add: entityToModel_collections)
  have "distinct (map el_id (elems (v_aliases vm))) \<and>
     distinct (map el_id (elems (v_resources vm))) \<and>
     distinct (map el_id (elems (v_edges vm)))"
  proof (rule reconcile_distinct [OF r])
    show "distinct (map el_id (elems (v_aliases ?v)))"
      "distinct (map el_id (elems (v_resources ?v)))"
      "distinct (map el_id (elems (v_edges ?v)))"
      using ue unfolding el by (simp_all add: uniqueIds_def comp_def)
    show "\<forall>a \<in> set (elems (v_aliases ?v)). el_deleted a \<noteq> None \<longrightarrow> \<not> inUpdateList (el_id a) as"
      "\<forall>a \<in> set (elems (v_resources ?v)). el_deleted a \<noteq> None \<longrightarrow> \<not> inUpdateList (el_id a) rs"
      "\<forall>a \<in> set (elems (v_edges ?v)). el_deleted a \<noteq> None \<longrightarrow> \<not> inUpdateList (el_id a) es"
      using n unfolding el by (auto simp: noDeletedResupply_def list_all_iff)
  qed
  then have new: "\<And>c. uniqueIds (vertexModelToEntity
      (vm\<lparr>v_changesets := Some (elems (e_changesets e) @ [c]), v_updated := t\<rparr>))"
    by (simp add: uniqueIds_modelToEntity)
  show ?thesis
  proof (cases "diff env (vertexEntityToModel e) vm \<noteq> [] \<or> elems (e_changesets e) = []")
    case True
    with q obtain c imm' where
      "st' = \<lparr>vertexStorage =
                 storageSet (vertexModelToEntity
                   (vm\<lparr>v_changesets := Some (elems (e_changesets e) @ [c]), v_updated := t\<rparr>))
                   (vertexStorage st),
               immutableStorage = imm'\<rparr>"
      by auto
    with inv new [of c]
      set_storageSet [of "vertexModelToEntity
        (vm\<lparr>v_changesets := Some (elems (e_changesets e) @ [c]), v_updated := t\<rparr>)"
        "vertexStorage st"]
    show ?thesis by auto
  next
    case False
    with q inv show ?thesis by simp
  qed
qed

lemma create_keeps_ids_unique:
  assumes c: "create env t i ms md as rs es ident node st = Inr (urn, st')"
    and inv: "\<forall>x \<in> set (vertexStorage st). uniqueIds x"
  shows "\<forall>x \<in> set (vertexStorage st'). uniqueIds x"
proof -
  from create_persisted [OF c] obtain vm c imm' where
    r: "reconcile env \<lparr>now = t, userIdentity = the ident, nodeIdentity = the node\<rparr>
       \<lparr>v_id = i, v_nodeIdentity = the node, v_created = t, v_updated = t,
         v_metadataSchema = ms, v_metadata = md, v_aliases = None, v_resources = None,
         v_edges = None, v_changesets = None\<rparr> as rs es = Inr vm" and
    s: "st' = \<lparr>vertexStorage =
              storageSet (vertexModelToEntity (vm\<lparr>v_changesets := Some [c]\<rparr>))
                (vertexStorage st),
            immutableStorage = imm'\<rparr>"
    by blast
  from reconcile_distinct [OF r]
  have "uniqueIds (vertexModelToEntity (vm\<lparr>v_changesets := Some [c]\<rparr>))"
    by (simp add: uniqueIds_modelToEntity)
  with s inv set_storageSet [of "vertexModelToEntity (vm\<lparr>v_changesets := Some [c]\<rparr>)"
      "vertexStorage st"]
  show ?thesis by auto
qed

lemma removeImmutable_keeps_ids_unique:
  assumes r: "removeImmutable env i node st = Inr st'"
    and inv: "\<forall>x \<in> set (vertexStorage st). uniqueIds x"
  shows "\<forall>x \<in> set (vertexStorage st'). uniqueIds x"
proof -
  from removeImmutable_Inr [OF r]
  obtain vid e0 imm hasChanged changesets where
    g: "storageGet (vertexStorage st) vid = Some e0" and
    s: "st' = (if hasChanged
            then \<lparr>vertexStorage =
                    storageSet (e0\<lparr>e_changesets := Some changesets\<rparr>) (vertexStorage st),
                  immutableStorage = imm\<rparr>
            else st\<lparr>immutableStorage := imm\<rparr>)" by blast
  from storageGet_SomeD [OF g] inv have "uniqueIds e0" by simp
  then have "uniqueIds (e0\<lparr>e_changesets := Some changesets\<rparr>)" by (simp add: uniqueIds_def)
  with s inv set_storageSet [of "e0\<lparr>e_changesets := Some changesets\<rparr>" "vertexStorage st"]
  show ?thesis by (auto split: if_splits)
qed

text \<open>
  In every state reached by \<^verbatim>\<open>create\<close>, \<^verbatim>\<open>update\<close> and \<^verbatim>\<open>removeImmutable\<close> in which no
  update list names the id of an element that is deleted in the vertex being updated,
  the ids of the elements are unique within the aliases, within the resources and within
  the edges of every stored vertex.
\<close>

lemma unique_ids_without_resupply:
  assumes "reachableFresh env st" and "e \<in> set (vertexStorage st)"
  shows "uniqueIds e"
proof -
  from assms(1) have "\<forall>x \<in> set (vertexStorage st). uniqueIds x"
  proof (induction rule: reachableFresh.induct)
    case (fresh_init imm)
    then show ?case by simp
  next
    case (fresh_create st t i metadataSchema metadata aliases resources edges identity node urn st')
    from create_keeps_ids_unique [OF fresh_create.hyps(2) fresh_create.IH] show ?case .
  next
    case (fresh_update st i namespace vertexId e aliases resources edges t metadataSchema
        metadata identity node st')
    from update_keeps_ids_unique [OF fresh_update.hyps(5) fresh_update.hyps(2)
        fresh_update.hyps(3) fresh_update.hyps(4) fresh_update.IH]
    show ?case .
  next
    case (fresh_removeImmutable st i node st')
    from removeImmutable_keeps_ids_unique [OF fresh_removeImmutable.hyps(2)
        fresh_removeImmutable.IH]
    show ?case .
  qed
  with assms(2) show ?thesis by simp
qed

lemma unique_ids_without_resupply_demo:
  "reachableFresh demoEnv demoState2 \<and>
   hd (vertexStorage demoState2) \<in> set (vertexStorage demoState2) \<and>
   map ee_deleted (elems (e_aliases (hd (vertexStorage demoState2)))) = [Some 20, None] \<and>
   uniqueIds (hd (vertexStorage demoState2))"
proof -
  have n: "noDeletedResupply (hd (vertexStorage demoState1)) (Some [demoItem ''b'']) None None"
    by code_simp
  have r1: "reachableFresh demoEnv demoState1"
    using fresh_create [OF fresh_init demoState1_create [unfolded demoInit_def]] .
  have r: "reachableFresh demoEnv demoState2"
    using fresh_update [OF r1 demo_urn demo_target1 n demoState2_update] .
  have m: "hd (vertexStorage demoState2) \<in> set (vertexStorage demoState2)"
    by (simp add: demoState2_def)
  have d: "map ee_deleted (elems (e_aliases (hd (vertexStorage demoState2)))) = [Some 20, None]"
    by (simp add: demoState2_def demoEntity_def demoAlias_def)
  from unique_ids_without_resupply [OF r m] r m d show ?thesis by simp
qed

text \<open>
  What \<^verbatim>\<open>updateAlias\<close> does when the first alias with the id of the item is deleted: it
  pushes a new alias, whatever the aliases after the deleted one are; the id then occurs
  at least twice.
\<close>

lemma updateAlias_after_deleted:
  assumes "it_id a \<noteq> []"
    and "v_aliases v = Some xs"
    and "find (\<lambda>x. el_id x = it_id a) xs = Some d"
    and "truthy (el_deleted d)"
  shows "updateAlias env ctx v a =
     Inr (v\<lparr>v_aliases := Some (xs @
       [\<lparr>el_id = it_id a, el_created = now ctx, el_updated = None, el_deleted = None,
         el_metadataSchema = it_metadataSchema a, el_metadata = it_metadata a\<rparr>])\<rparr>)"
    and "\<not> distinct (map el_id (xs @
       [\<lparr>el_id = it_id a, el_created = now ctx, el_updated = None, el_deleted = None,
         el_metadataSchema = it_metadataSchema a, el_metadata = it_metadata a\<rparr>]))"
proof -
  show "updateAlias env ctx v a =
     Inr (v\<lparr>v_aliases := Some (xs @
       [\<lparr>el_id = it_id a, el_created = now ctx, el_updated = None, el_deleted = None,
         el_metadataSchema = it_metadataSchema a, el_metadata = it_metadata a\<rparr>])\<rparr>)"
    using assms by (simp add: updateAlias_def)
  from assms(3) have "d \<in> set xs" "el_id d = it_id a"
    by (auto simp: find_Some_iff)
  then have "it_id a \<in> set (map el_id xs)" by force
  then show "\<not> distinct (map el_id (xs @
       [\<lparr>el_id = it_id a, el_created = now ctx, el_updated = None, el_deleted = None,
         el_metadataSchema = it_metadataSchema a, el_metadata = it_metadata a\<rparr>]))"
    by simp
qed

text \<open>
  C5, evaluated at the failing input. The vertex is created at epoch 10 with the aliases
  \<open>Foo\<close> and \<open>b\<close> and updated at 20 with \<open>b\<close> alone, which deletes \<open>Foo\<close>. The update at 30
  names \<open>Foo\<close> again: \<^verbatim>\<open>updateAlias\<close> finds the deleted alias and pushes a new one with the
  same id, so the id occurs twice. The update at 40 names \<open>Foo\<close> once more: the search by
  id alone still returns the deleted alias, which comes first, and not the live one of
  epoch 30, and a third alias \<open>Foo\<close> is pushed. The state is reachable, the stored aliases
  hold the id \<open>Foo\<close> three times, two of them not deleted, and \<^verbatim>\<open>get\<close> returns both.
\<close>

theorem C5_resupplied_id_pushes_live_duplicates:
  "create demoEnv 10 ''01'' None None (Some [demoItem ''Foo'', demoItem ''b''])
     None None (Some ''u'') (Some ''n'') demoInit = Inr (''aig:01'', demoState1) \<and>
   update demoEnv 20 ''aig:01'' None None (Some [demoItem ''b''])
     None None (Some ''u'') (Some ''n'') demoState1 = Inr demoState2 \<and>
   update demoEnv 30 ''aig:01'' None None (Some [demoItem ''Foo'', demoItem ''b''])
     None None (Some ''u'') (Some ''n'') demoState2 = Inr demoState3 \<and>
   update demoEnv 40 ''aig:01'' None None (Some [demoItem ''Foo'', demoItem ''b''])
     None None (Some ''u'') (Some ''n'') demoState3 = Inr demoState4 \<and>
   reachable demoEnv demoState4 \<and>
   map (\<lambda>a. (ee_id a, ee_created a, ee_deleted a))
     (elems (e_aliases (hd (vertexStorage demoState3)))) =
     [(''Foo'', 10, Some 20), (''b'', 10, None), (''Foo'', 30, None)] \<and>
   map (\<lambda>a. (ee_id a, ee_created a, ee_deleted a))
     (elems (e_aliases (hd (vertexStorage demoState4)))) =
     [(''Foo'', 10, Some 20), (''b'', 10, None), (''Foo'', 30, None), (''Foo'', 40, None)] \<and>
   \<not> distinct (map ee_id (elems (e_aliases (hd (vertexStorage demoState4))))) \<and>
   \<not> distinct (map ee_id (filter (\<lambda>a. ee_deleted a = None)
     (elems (e_aliases (hd (vertexStorage demoState4)))))) \<and>
   map_sum id (\<lambda>r. map_option (map (\<lambda>a. (el_id a, el_created a, el_deleted a)))
       (v_aliases (vertex r)))
     (get demoEnv ''aig:01'' None demoState4) =
     Inr (Some [(''b'', 10, None), (''Foo'', 30, None), (''Foo'', 40, None)])"
proof -
  have "map (\<lambda>a. (ee_id a, ee_created a, ee_deleted a))
     (elems (e_aliases (hd (vertexStorage demoState3)))) =
     [(''Foo'', 10, Some 20), (''b'', 10, None), (''Foo'', 30, None)]"
    "map (\<lambda>a. (ee_id a, ee_created a, ee_deleted a))
     (elems (e_aliases (hd (vertexStorage demoState4)))) =
     [(''Foo'', 10, Some 20), (''b'', 10, None), (''Foo'', 30, None), (''Foo'', 40, None)]"
    "\<not> distinct (map ee_id (elems (e_aliases (hd (vertexStorage demoState4)))))"
    "\<not> distinct (map ee_id (filter (\<lambda>a. ee_deleted a = None)
       (elems (e_aliases (hd (vertexStorage demoState4))))))"
    by (simp_all add: demoState3_def demoState4_def demoEntity_def demoAlias_def)
  moreover have
    "map_sum id (\<lambda>r. map_option (map (\<lambda>a. (el_id a, el_created a, el_deleted a)))
       (v_aliases (vertex r)))
     (get demoEnv ''aig:01'' None demoState4) =
     Inr (Some [(''b'', 10, None), (''Foo'', 30, None), (''Foo'', 40, None)])"
    by code_simp
  ultimately show ?thesis
    using demoState1_create demoState2_update demoState3_update demoState4_update
      demo_reachable4
    by simp
qed

end
